theory Spec2Isabelle
  imports Complex_Main "HOL-Library.Sublist"
begin

section \<open>Data model of \<^verbatim>\<open>run.py\<close>\<close>

text \<open>
  A timeline entry is the dictionary the Mastodon client returns for a status. Only the keys
  that \<^verbatim>\<open>run.py\<close> and the scorers read are kept. The key \<^verbatim>\<open>reblog\<close> is either
  \<^verbatim>\<open>None\<close> or the boosted status, itself such a dictionary.
\<close>

record account =
  acct :: string
  followers_count :: nat

datatype status = Status
  (url: string)
  (reblog: "status option")
  (reblogged: bool)
  (favourited: bool)
  (bookmarked: bool)
  (account: account)
  (reblogs_count: nat)
  (favourites_count: nat)
  (replies_count: nat)

text \<open>
  Modelled from the spec: the class \<^verbatim>\<open>ScoredPost\<close> of \<^verbatim>\<open>models.py\<close> is not among the
  sources. \<^verbatim>\<open>run.py\<close> builds it from a status dictionary, reads the dictionary back as
  \<^verbatim>\<open>.info\<close> and reads \<^verbatim>\<open>.url\<close>, the identity URL of the post (the deduplication key).
\<close>

datatype ScoredPost = ScoredPost (info: status)

definition ScoredPost_url :: "ScoredPost \<Rightarrow> string" where
  "ScoredPost_url p = url (info p)"

text \<open>
  A scorer maps a post to its score; \<^verbatim>\<open>p.get_score(scorer)\<close> applies it. The scorers of
  \<^verbatim>\<open>scorers.py\<close> are not among the sources, so the scorer is a parameter everywhere.
  A score is a float that \<^verbatim>\<open>run.py\<close> and the library only compare with other scores;
  comparison is exact on floats, so scores are kept as reals.
\<close>

type_synonym Scorer = "ScoredPost \<Rightarrow> real"

definition get_score :: "ScoredPost \<Rightarrow> Scorer \<Rightarrow> real" where
  "get_score p scorer = scorer p"

section \<open>The timeline collector: \<^verbatim>\<open>fetch_posts_and_boosts\<close>\<close>

text \<open>
  The remote collaborator. \<^verbatim>\<open>timeline(min_id=start)\<close> yields the first page of the
  window, \<^verbatim>\<open>fetch_previous\<close> the next page of the list, and \<^verbatim>\<open>None\<close> after the last
  one; \<^verbatim>\<open>filters_apply(response, filters, "home")\<close> is a function on pages.
\<close>

record mastodon_client =
  timeline :: "status list list"
  filters_apply :: "status list \<Rightarrow> status list"

text \<open>
  The local variables of \<^verbatim>\<open>fetch_posts_and_boosts\<close>. The field \<open>examined\<close> is not a
  variable of the source: it logs, in order, every response that the loop hands to
  \<^verbatim>\<open>filters_apply\<close>, so that the number of raw entries examined can be stated.
  No other field depends on it.
\<close>

record collector_state =
  posts :: "ScoredPost list"
  boosts :: "ScoredPost list"
  seen_post_urls :: "string set"
  total_posts_seen :: nat
  examined :: "status list list"

definition TIMELINE_LIMIT :: nat where
  "TIMELINE_LIMIT = 1000"

definition initial_state :: collector_state where
  "initial_state =
     \<lparr>posts = [], boosts = [], seen_post_urls = {}, total_posts_seen = 0, examined = []\<rparr>"

text \<open>Lines 43 to 45: a boost is replaced by the post it boosts.\<close>

definition unwrap :: "status \<Rightarrow> status \<times> bool" where
  "unwrap post = (case reblog post of Some r \<Rightarrow> (r, True) | None \<Rightarrow> (post, False))"

text \<open>Lines 52 to 57: the local filter.\<close>

definition local_filter :: "string \<Rightarrow> ScoredPost \<Rightarrow> bool" where
  "local_filter mastodon_username scored_post \<longleftrightarrow>
     \<not> reblogged (info scored_post)
     \<and> \<not> favourited (info scored_post)
     \<and> \<not> bookmarked (info scored_post)
     \<and> acct (account (info scored_post)) \<noteq> mastodon_username"

text \<open>The body of the \<^verbatim>\<open>for\<close> loop, lines 40 to 63.\<close>

definition process_post :: "string \<Rightarrow> collector_state \<Rightarrow> status \<Rightarrow> collector_state" where
  "process_post mastodon_username st entry =
     (let st1 = st\<lparr>total_posts_seen := total_posts_seen st + 1\<rparr>;
          (post, boost) = unwrap entry;
          scored_post = ScoredPost post
      in if ScoredPost_url scored_post \<notin> seen_post_urls st1
         then if local_filter mastodon_username scored_post
              then (if boost then st1\<lparr>boosts := boosts st1 @ [scored_post]\<rparr>
                    else st1\<lparr>posts := posts st1 @ [scored_post]\<rparr>)
                   \<lparr>seen_post_urls := insert (ScoredPost_url scored_post) (seen_post_urls st1)\<rparr>
              else st1
         else st1)"

text \<open>
  The \<^verbatim>\<open>while\<close> loop, lines 34 to 67. The argument list holds the current response and
  the pages \<^verbatim>\<open>fetch_previous\<close> will yield after it; the empty list is the response
  \<^verbatim>\<open>None\<close>. An empty page is falsy as well and ends the loop. A timeline holds finitely
  many pages, so the loop is a recursion over the list of pages and always ends.
\<close>

fun timeline_loop ::
  "(status list \<Rightarrow> status list) \<Rightarrow> string \<Rightarrow> status list list \<Rightarrow> collector_state \<Rightarrow> collector_state"
where
  "timeline_loop fa mastodon_username [] st = st"
| "timeline_loop fa mastodon_username (response # previous) st =
     (if response \<noteq> [] \<and> total_posts_seen st < TIMELINE_LIMIT
      then timeline_loop fa mastodon_username previous
             (foldl (process_post mastodon_username)
                (st\<lparr>examined := examined st @ [response]\<rparr>) (fa response))
      else st)"

definition collect :: "mastodon_client \<Rightarrow> string \<Rightarrow> collector_state" where
  "collect mastodon_client mastodon_username =
     timeline_loop (filters_apply mastodon_client) mastodon_username
       (timeline mastodon_client) initial_state"

definition fetch_posts_and_boosts ::
  "mastodon_client \<Rightarrow> string \<Rightarrow> ScoredPost list \<times> ScoredPost list"
where
  "fetch_posts_and_boosts mastodon_client mastodon_username =
     (let st = collect mastodon_client mastodon_username in (posts st, boosts st))"

section \<open>The digest selector: lines 88 to 100 of \<^verbatim>\<open>run\<close>\<close>

subsection \<open>Double-precision arithmetic\<close>

text \<open>
  The percentile is computed in IEEE 754 double precision. A positive double is a multiple
  \<open>m / 2 ^ k\<close> of a power of two with a mantissa \<open>m\<close> of 53 bits; it is kept as the pair
  \<open>(m, k)\<close>. Only what the percentile needs is modelled: the quotient of two integers and
  the product of an integer and a double, both rounded to the nearest double, ties to the
  even mantissa. The range of the exponent is not modelled: all values here are 0 or lie
  between \<open>50 / n\<close> and a little over 100, for a sample of \<open>n\<close> scores, far inside the
  range of a double.
\<close>

text \<open>The integer nearest to \<open>p / q\<close>, ties to even.\<close>

definition round_half_even :: "nat \<Rightarrow> nat \<Rightarrow> nat" where
  "round_half_even p q =
     (let f = p div q; r = p mod q
      in if 2 * r < q then f else if q < 2 * r then f + 1 else if even f then f else f + 1)"

text \<open>The least \<open>k' \<ge> k\<close> that brings \<open>p / q * 2 ^ k'\<close> up to \<open>2 ^ 52\<close>.\<close>

function scale :: "nat \<Rightarrow> nat \<Rightarrow> nat \<Rightarrow> nat" where
  "scale p q k = (if p = 0 \<or> 2 ^ 52 * q \<le> p * 2 ^ k then k else scale p q (k + 1))"
  by pat_completeness auto
termination
proof (relation "measure (\<lambda>(p, q, k). 2 ^ 52 * q - p * 2 ^ k)")
  fix p q k :: nat
  assume "\<not> (p = 0 \<or> 2 ^ 52 * q \<le> p * 2 ^ k)"
  then have "0 < p * 2 ^ k" and "p * 2 ^ k < 2 ^ 52 * q" by simp_all
  then have "2 ^ 52 * q - p * 2 ^ (k + 1) < 2 ^ 52 * q - p * 2 ^ k"
    by (intro diff_less_mono2) simp_all
  then show "((p, q, k + 1), (p, q, k)) \<in> measure (\<lambda>(p, q, k). 2 ^ 52 * q - p * 2 ^ k)"
    by simp
qed simp

declare scale.simps [simp del]

text \<open>The double nearest to \<open>p / q\<close>, for \<open>p / q\<close> below \<open>2 ^ 53\<close>.\<close>

definition binary64 :: "nat \<Rightarrow> nat \<Rightarrow> nat \<times> nat" where
  "binary64 p q = (let k = scale p q 0 in (round_half_even (p * 2 ^ k) q, k))"

definition float_value :: "nat \<times> nat \<Rightarrow> real" where
  "float_value x = real (fst x) / 2 ^ snd x"

text \<open>\<^verbatim>\<open>p / q\<close> on two integers, and \<^verbatim>\<open>i * x\<close> on an integer and a double.\<close>

definition float_div :: "nat \<Rightarrow> nat \<Rightarrow> nat \<times> nat" where
  "float_div p q = binary64 p q"

definition float_mul :: "nat \<Rightarrow> nat \<times> nat \<Rightarrow> nat \<times> nat" where
  "float_mul i x = binary64 (i * fst x) (2 ^ snd x)"

subsection \<open>The percentile and the selection\<close>

text \<open>
  \<^verbatim>\<open>scipy.stats.percentileofscore(a, score)\<close> with its default kind \<^verbatim>\<open>rank\<close>: with
  \<open>left\<close> the number of sample values below the score and \<open>right\<close> the number of values
  not above it, the result is \<^verbatim>\<open>(left + right + plus1) * (50.0 / n)\<close>, where \<open>plus1\<close> is
  1 if \<open>left < right\<close> and 0 otherwise: a quotient and a product in double precision.
  On an empty sample the library has no percentile to give (it answers \<^verbatim>\<open>nan\<close>); the model
  answers \<open>None\<close>. Scores are only compared, which is exact on doubles, so they are kept as
  reals; a \<^verbatim>\<open>nan\<close> score is outside the model.
\<close>

definition percentileofscore :: "real list \<Rightarrow> real \<Rightarrow> real option" where
  "percentileofscore a score =
     (let n = length a in
      if n = 0 then None
      else let left = length (filter (\<lambda>x. x < score) a);
               right = length (filter (\<lambda>x. x \<le> score) a);
               plus1 = (if left < right then 1 else 0)
           in Some (float_value (float_mul (left + right + plus1) (float_div 50 n))))"

text \<open>The comparison \<^verbatim>\<open>percentile > threshold\<close>; \<^verbatim>\<open>nan > threshold\<close> is false.\<close>

definition exceeds :: "real option \<Rightarrow> int \<Rightarrow> bool" where
  "exceeds percentile threshold =
     (case percentile of None \<Rightarrow> False | Some v \<Rightarrow> v > real_of_int threshold)"

text \<open>Lines 89 to 100: the two score samples and the two comprehensions.\<close>

definition select_digest ::
  "Scorer \<Rightarrow> int \<Rightarrow> ScoredPost list \<Rightarrow> ScoredPost list \<Rightarrow> ScoredPost list \<times> ScoredPost list"
where
  "select_digest scorer threshold posts_list boosts_list =
     (let all_post_scores = map (\<lambda>p. get_score p scorer) posts_list;
          all_boost_scores = map (\<lambda>b. get_score b scorer) boosts_list;
          threshold_posts =
            filter (\<lambda>p. exceeds (percentileofscore all_post_scores (get_score p scorer)) threshold)
              posts_list;
          threshold_boosts =
            filter (\<lambda>p. exceeds (percentileofscore all_boost_scores (get_score p scorer)) threshold)
              boosts_list
      in (threshold_posts, threshold_boosts))"

text \<open>\<^verbatim>\<open>run\<close> up to the two selected lists, which it then renders.\<close>

definition run ::
  "Scorer \<Rightarrow> int \<Rightarrow> mastodon_client \<Rightarrow> string \<Rightarrow> ScoredPost list \<times> ScoredPost list"
where
  "run scorer threshold mastodon_client mastodon_username =
     (let (posts_list, boosts_list) = fetch_posts_and_boosts mastodon_client mastodon_username
      in select_digest scorer threshold posts_list boosts_list)"

section \<open>The entry point: lines 163 to 223\<close>

text \<open>
  Modelled from the spec: \<^verbatim>\<open>thresholds.py\<close> is not among the sources. The registry of
  threshold policies maps lax, normal and strict to 90, 95 and 98, as the help text of the
  \<^verbatim>\<open>-t\<close> option says as well.
\<close>

definition get_thresholds :: "string \<rightharpoonup> int" where
  "get_thresholds = [''lax'' \<mapsto> 90, ''normal'' \<mapsto> 95, ''strict'' \<mapsto> 98]"

text \<open>
  The command line, as the values given for \<^verbatim>\<open>-n\<close> (already an integer), \<^verbatim>\<open>-s\<close> and
  \<^verbatim>\<open>-t\<close>, each \<open>None\<close> when the option is absent; and the namespace \<^verbatim>\<open>parse_args\<close>
  returns.
\<close>

record command_line =
  n_option :: "int option"
  s_option :: "string option"
  t_option :: "string option"

record namespace =
  args_hours :: int
  args_scorer :: string
  args_threshold :: string

text \<open>
  \<^verbatim>\<open>parse_args\<close> rejects a value outside an option's \<^verbatim>\<open>choices\<close> (it prints the usage
  and exits with status 2); the model answers \<open>None\<close>. An absent option takes its default.
\<close>

definition parse_args :: "string set \<Rightarrow> string set \<Rightarrow> command_line \<Rightarrow> namespace option" where
  "parse_args scorer_choices threshold_choices argv =
     (if (case n_option argv of Some h \<Rightarrow> h \<notin> {1..<25} | None \<Rightarrow> False) then None
      else if (case s_option argv of Some s \<Rightarrow> s \<notin> scorer_choices | None \<Rightarrow> False) then None
      else if (case t_option argv of Some t \<Rightarrow> t \<notin> threshold_choices | None \<Rightarrow> False) then None
      else Some \<lparr>args_hours = (case n_option argv of Some h \<Rightarrow> h | None \<Rightarrow> 12),
                 args_scorer = (case s_option argv of Some s \<Rightarrow> s | None \<Rightarrow> ''SimpleWeighted''),
                 args_threshold = (case t_option argv of Some t \<Rightarrow> t | None \<Rightarrow> ''normal'')\<rparr>)"

text \<open>The arguments of the call of \<^verbatim>\<open>run\<close>, lines 216 to 223.\<close>

record 's run_call =
  run_hours :: int
  run_scorer :: 's
  run_threshold :: int
  run_token :: string
  run_base_url :: string
  run_username :: string

text \<open>
  How the program ends: \<^verbatim>\<open>parse_args\<close> exits, the help is printed, \<^verbatim>\<open>sys.exit\<close> is called
  with a message, a registry lookup raises \<^verbatim>\<open>KeyError\<close>, or \<^verbatim>\<open>run\<close> is called. Only
  \<^verbatim>\<open>run\<close> builds the Mastodon client and talks to the server.
\<close>

datatype 's outcome =
    ArgparseError
  | PrintHelp
  | SysExit string
  | KeyError string
  | Run "'s run_call"

text \<open>
  The registries \<^verbatim>\<open>get_scorers()\<close> and \<^verbatim>\<open>get_thresholds()\<close> are parameters, as is the
  environment \<^verbatim>\<open>os.getenv\<close> reads. \<^verbatim>\<open>not x\<close> holds of the integer 0, and of
  \<^verbatim>\<open>None\<close> and the empty string (\<open>falsy\<close>).
\<close>

definition falsy :: "string option \<Rightarrow> bool" where
  "falsy v = (case v of None \<Rightarrow> True | Some x \<Rightarrow> x = [])"

text \<open>The string an environment variable holds, once it is known not to be \<^verbatim>\<open>None\<close>.\<close>

definition str_of :: "string option \<Rightarrow> string" where
  "str_of v = (case v of None \<Rightarrow> [] | Some x \<Rightarrow> x)"

definition main ::
  "(string \<rightharpoonup> 's) \<Rightarrow> (string \<rightharpoonup> int) \<Rightarrow> command_line \<Rightarrow> (string \<rightharpoonup> string) \<Rightarrow> 's outcome"
where
  "main scorers thresholds argv getenv =
     (case parse_args (dom scorers) (dom thresholds) argv of
        None \<Rightarrow> ArgparseError
      | Some args \<Rightarrow>
          if args_hours args = 0 then PrintHelp
          else
            let mastodon_token = getenv ''MASTODON_TOKEN'';
                mastodon_base_url = getenv ''MASTODON_BASE_URL'';
                mastodon_username = getenv ''MASTODON_USERNAME''
            in if falsy mastodon_token
               then SysExit ''Missing environment variable: MASTODON_TOKEN''
               else if falsy mastodon_base_url
               then SysExit ''Missing environment variable: MASTODON_BASE_URL''
               else if falsy mastodon_username
               then SysExit ''Missing environment variable: MASTODON_USERNAME''
               else
                 (case scorers (args_scorer args) of
                    None \<Rightarrow> KeyError (args_scorer args)
                  | Some scorer \<Rightarrow>
                 (case thresholds (args_threshold args) of
                    None \<Rightarrow> KeyError (args_threshold args)
                  | Some threshold \<Rightarrow>
                      Run \<lparr>run_hours = args_hours args, run_scorer = scorer,
                           run_threshold = threshold, run_token = str_of mastodon_token,
                           run_base_url = str_of mastodon_base_url,
                           run_username = str_of mastodon_username\<rparr>)))"

section \<open>Concrete posts, scorers and command lines\<close>

text \<open>A post by Dave with a given number of favourites.\<close>

definition liked :: "string \<Rightarrow> nat \<Rightarrow> ScoredPost" where
  "liked post_url n =
     ScoredPost (Status post_url None False False False \<lparr>acct = ''dave'', followers_count = 0\<rparr> 0 n 0)"

definition ten_posts :: "ScoredPost list" where
  "ten_posts =
     [liked ''https://d.example/01'' 1, liked ''https://d.example/02'' 2,
      liked ''https://d.example/03'' 3, liked ''https://d.example/04'' 4,
      liked ''https://d.example/05'' 5, liked ''https://d.example/06'' 6,
      liked ''https://d.example/07'' 7, liked ''https://d.example/08'' 8,
      liked ''https://d.example/09'' 9, liked ''https://d.example/10'' 10]"

text \<open>Eleven posts, two of them with the same number of favourites.\<close>

definition eleven_posts :: "ScoredPost list" where
  "eleven_posts =
     [liked ''https://d.example/01'' 1, liked ''https://d.example/02'' 2,
      liked ''https://d.example/03'' 3, liked ''https://d.example/04'' 4,
      liked ''https://d.example/05'' 6, liked ''https://d.example/06'' 6,
      liked ''https://d.example/07'' 7, liked ''https://d.example/08'' 8,
      liked ''https://d.example/09'' 9, liked ''https://d.example/10'' 10,
      liked ''https://d.example/11'' 11]"

text \<open>
  A list of 595 posts with pairwise different URLs: 534 posts with one favourite, then two
  with five, then 59 with nine.
\<close>

definition numbered :: "nat \<Rightarrow> nat \<Rightarrow> ScoredPost" where
  "numbered i n = liked (''https://d.example/'' @ replicate i (CHR ''i'')) n"

definition many_posts :: "ScoredPost list" where
  "many_posts =
     map (\<lambda>i. numbered i 1) [0..<534] @ [numbered 534 5, numbered 535 5]
     @ map (\<lambda>i. numbered i 9) [536..<595]"

text \<open>Two boosted posts, by Erin, with boosts as well as favourites.\<close>

definition two_boosts :: "ScoredPost list" where
  "two_boosts =
     [ScoredPost (Status ''https://e.example/1'' None False False False
        \<lparr>acct = ''erin'', followers_count = 0\<rparr> 4 2 0),
      ScoredPost (Status ''https://e.example/2'' None False False False
        \<lparr>acct = ''erin'', followers_count = 0\<rparr> 1 7 0)]"

text \<open>Two scorers that agree on posts nobody has boosted.\<close>

definition by_favourites :: Scorer where
  "by_favourites p = real (favourites_count (info p))"

definition by_favourites_and_boosts :: Scorer where
  "by_favourites_and_boosts p =
     real (favourites_count (info p)) + 100 * real (reblogs_count (info p))"

definition one_scorer :: "string \<rightharpoonup> Scorer" where
  "one_scorer = [''SimpleWeighted'' \<mapsto> by_favourites]"

definition full_environment :: "string \<rightharpoonup> string" where
  "full_environment =
     [''MASTODON_TOKEN'' \<mapsto> ''secret'',
      ''MASTODON_BASE_URL'' \<mapsto> ''https://v.example'',
      ''MASTODON_USERNAME'' \<mapsto> ''viewer'']"

section \<open>Notions used to state the properties\<close>

text \<open>
  The integer \<open>left + right + plus1\<close> of \<open>percentileofscore\<close>, and the percentile rank
  that \<open>percentileofscore\<close> rounds: the same expression in exact arithmetic.
\<close>

definition rank_sum :: "real list \<Rightarrow> real \<Rightarrow> nat" where
  "rank_sum a score =
     (let left = length (filter (\<lambda>x. x < score) a);
          right = length (filter (\<lambda>x. x \<le> score) a);
          plus1 = (if left < right then 1 else 0)
      in left + right + plus1)"

definition percentile_rank :: "real list \<Rightarrow> real \<Rightarrow> real" where
  "percentile_rank a score = real (rank_sum a score) * 50 / real (length a)"

text \<open>The post an entry stands for: the boosted post of a boost, the entry itself otherwise.\<close>

definition underlying :: "status \<Rightarrow> status" where
  "underlying entry = fst (unwrap entry)"

text \<open>The entries the \<^verbatim>\<open>for\<close> loop iterates over, given the responses examined.\<close>

definition entries_of :: "(status list \<Rightarrow> status list) \<Rightarrow> status list list \<Rightarrow> status list" where
  "entries_of fa pages = concat (map fa pages)"

text \<open>The number of raw entries, before server-side filtering, in the responses examined.\<close>

definition raw_entries_examined :: "collector_state \<Rightarrow> nat" where
  "raw_entries_examined st = sum_list (map length (examined st))"

text \<open>The number of records of a list that carry a given identity URL.\<close>

definition count_url :: "string \<Rightarrow> ScoredPost list \<Rightarrow> nat" where
  "count_url u ps = length (filter (\<lambda>p. ScoredPost_url p = u) ps)"

text \<open>
  The loop invariant of the collector, relative to the entries \<open>es\<close> iterated over so far.
\<close>

definition collector_inv :: "string \<Rightarrow> status list \<Rightarrow> collector_state \<Rightarrow> bool" where
  "collector_inv u es st \<longleftrightarrow>
     seen_post_urls st = set (map ScoredPost_url (posts st @ boosts st))
   \<and> distinct (map ScoredPost_url (posts st @ boosts st))
   \<and> (\<forall>p \<in> set (posts st @ boosts st). local_filter u p)
   \<and> (\<forall>p \<in> set (posts st). reblog (info p) = None \<and> info p \<in> set es)
   \<and> (\<forall>b \<in> set (boosts st). \<exists>e \<in> set es. reblog e = Some (info b))
   \<and> (\<forall>e \<in> set es. local_filter u (ScoredPost (underlying e)) \<longrightarrow>
          url (underlying e) \<in> seen_post_urls st)
   \<and> subseq (map info (posts st)) (map underlying es)
   \<and> subseq (map info (boosts st)) (map underlying es)"

section \<open>Concrete timelines\<close>

definition original :: "string \<Rightarrow> string \<Rightarrow> status" where
  "original post_url author =
     Status post_url None False False False \<lparr>acct = author, followers_count = 0\<rparr> 0 0 0"

definition boost :: "string \<Rightarrow> string \<Rightarrow> status \<Rightarrow> status" where
  "boost boost_url booster s =
     Status boost_url (Some s) False False False \<lparr>acct = booster, followers_count = 0\<rparr> 0 0 0"

text \<open>No server-side filter rule matches: \<^verbatim>\<open>filters_apply\<close> returns the page as it is.\<close>

definition no_filters :: "status list \<Rightarrow> status list" where
  "no_filters response = response"

text \<open>A server-side filter that hides the statuses of one muted account.\<close>

definition mute :: "string \<Rightarrow> status list \<Rightarrow> status list" where
  "mute name response = filter (\<lambda>s. acct (account s) \<noteq> name) response"

text \<open>
  Carol's post, reachable directly on the first page and through two boosts, by Alice on the
  first page and by Bob on the second.
\<close>

definition carols_post :: status where
  "carols_post = original ''https://c.example/1'' ''carol''"

definition boosted_twice :: mastodon_client where
  "boosted_twice =
     \<lparr>timeline =
        [[carols_post, boost ''https://a.example/7'' ''alice'' carols_post],
         [boost ''https://b.example/9'' ''bob'' carols_post]],
      filters_apply = no_filters\<rparr>"

text \<open>
  Twenty-six pages of forty entries, the page size of the Mastodon API; the first entry of
  the first page is by a muted account and is removed by the server-side filter.
\<close>

definition daves_post :: status where
  "daves_post = original ''https://d.example/1'' ''dave''"

definition busy_timeline :: mastodon_client where
  "busy_timeline =
     \<lparr>timeline =
        (original ''https://m.example/1'' ''muted'' # replicate 39 daves_post)
        # replicate 25 (replicate 40 daves_post),
      filters_apply = mute ''muted''\<rparr>"

text \<open>
  One page with the viewer's own post, a favourited post, a boost of a bookmarked post, a
  boost the viewer made, and two posts the viewer has not touched, one of them boosted.
\<close>

definition mixed_page :: mastodon_client where
  "mixed_page =
     \<lparr>timeline =
        [[original ''https://v.example/1'' ''viewer'',
          Status ''https://c.example/2'' None False True False
            \<lparr>acct = ''carol'', followers_count = 0\<rparr> 0 0 0,
          boost ''https://a.example/8'' ''alice''
            (Status ''https://c.example/3'' None False False True
               \<lparr>acct = ''carol'', followers_count = 0\<rparr> 0 0 0),
          boost ''https://v.example/2'' ''viewer''
            (Status ''https://c.example/4'' None True False False
               \<lparr>acct = ''carol'', followers_count = 0\<rparr> 0 0 0),
          daves_post,
          boost ''https://b.example/9'' ''bob'' carols_post]],
      filters_apply = no_filters\<rparr>"

text \<open>No option is given on the command line.\<close>

definition plain_command_line :: command_line where
  "plain_command_line = \<lparr>n_option = None, s_option = None, t_option = None\<rparr>"

section \<open>Properties of the collector\<close>

lemma timeline_loop_empty_first:
  "timeline_loop fa u ([] # previous) st = st"
  by simp

lemma process_post_examined [simp]:
  "examined (process_post u st e) = examined st"
  by (simp add: process_post_def Let_def split: prod.splits)

lemma process_post_total [simp]:
  "total_posts_seen (process_post u st e) = total_posts_seen st + 1"
  by (simp add: process_post_def Let_def split: prod.splits)

lemma foldl_process_post_examined [simp]:
  "examined (foldl (process_post u) st es) = examined st"
  by (induction es arbitrary: st) simp_all

lemma foldl_process_post_total [simp]:
  "total_posts_seen (foldl (process_post u) st es) = total_posts_seen st + length es"
  by (induction es arbitrary: st) simp_all

text \<open>
  The log of examined responses is an observer only: started from another log, the loop ends
  in the same state but for the log.
\<close>

lemma process_post_ghost:
  "process_post u (st\<lparr>examined := x\<rparr>) e = (process_post u st e)\<lparr>examined := x\<rparr>"
  by (simp add: process_post_def Let_def split: prod.splits)

lemma foldl_process_post_ghost:
  "foldl (process_post u) (st\<lparr>examined := x\<rparr>) es = (foldl (process_post u) st es)\<lparr>examined := x\<rparr>"
  by (induction es arbitrary: st) (simp_all add: process_post_ghost)

lemma timeline_loop_ghost:
  "\<exists>y. timeline_loop fa u pages (st\<lparr>examined := x\<rparr>) = (timeline_loop fa u pages st)\<lparr>examined := y\<rparr>"
proof (induction pages arbitrary: st x)
  case Nil
  then show ?case by auto
next
  case (Cons r rs)
  show ?case
  proof (cases "r \<noteq> [] \<and> total_posts_seen st < TIMELINE_LIMIT")
    case True
    let ?st' = "foldl (process_post u) st (fa r)"
    from Cons.IH[where st = ?st' and x = "x @ [r]"] obtain y where
      y: "timeline_loop fa u rs (?st'\<lparr>examined := x @ [r]\<rparr>) = (timeline_loop fa u rs ?st')\<lparr>examined := y\<rparr>"
      by blast
    from Cons.IH[where st = ?st' and x = "examined st @ [r]"] obtain z where
      z: "timeline_loop fa u rs (?st'\<lparr>examined := examined st @ [r]\<rparr>) = (timeline_loop fa u rs ?st')\<lparr>examined := z\<rparr>"
      by blast
    have "timeline_loop fa u (r # rs) (st\<lparr>examined := x\<rparr>) = (timeline_loop fa u rs ?st')\<lparr>examined := y\<rparr>"
      using True y by (simp add: foldl_process_post_ghost)
    moreover have "timeline_loop fa u (r # rs) st = (timeline_loop fa u rs ?st')\<lparr>examined := z\<rparr>"
      using True z by (simp add: foldl_process_post_ghost)
    ultimately show ?thesis by (intro exI[of _ y]) simp
  next
    case False
    then show ?thesis by auto
  qed
qed

subsection \<open>Pagination\<close>

lemma timeline_loop_prefix:
  "\<exists>done. examined (timeline_loop fa u pages st) = examined st @ done \<and> prefix done pages"
proof (induction pages arbitrary: st)
  case Nil
  then show ?case by simp
next
  case (Cons r rs)
  show ?case
  proof (cases "r \<noteq> [] \<and> total_posts_seen st < TIMELINE_LIMIT")
    case True
    let ?st' = "foldl (process_post u) (st\<lparr>examined := examined st @ [r]\<rparr>) (fa r)"
    from Cons.IH[of ?st'] obtain d where
      d: "examined (timeline_loop fa u rs ?st') = examined ?st' @ d" "prefix d rs" by blast
    have "examined (timeline_loop fa u (r # rs) st) = examined st @ (r # d)"
      using True d by simp
    moreover have "prefix (r # d) (r # rs)" using d by simp
    ultimately show ?thesis by blast
  next
    case False
    then show ?thesis by auto
  qed
qed

lemma timeline_loop_total:
  "total_posts_seen st = sum_list (map (\<lambda>r. length (fa r)) (examined st)) \<Longrightarrow>
   total_posts_seen (timeline_loop fa u pages st) =
     sum_list (map (\<lambda>r. length (fa r)) (examined (timeline_loop fa u pages st)))"
proof (induction pages arbitrary: st)
  case Nil
  then show ?case by simp
next
  case (Cons r rs)
  then show ?case by simp
qed

lemma timeline_loop_butlast:
  "(examined st \<noteq> [] \<longrightarrow> sum_list (map (\<lambda>r. length (fa r)) (butlast (examined st))) < TIMELINE_LIMIT) \<Longrightarrow>
   total_posts_seen st = sum_list (map (\<lambda>r. length (fa r)) (examined st)) \<Longrightarrow>
   examined (timeline_loop fa u pages st) \<noteq> [] \<longrightarrow>
     sum_list (map (\<lambda>r. length (fa r)) (butlast (examined (timeline_loop fa u pages st)))) < TIMELINE_LIMIT"
proof (induction pages arbitrary: st)
  case Nil
  then show ?case by simp
next
  case (Cons r rs)
  show ?case
  proof (cases "r \<noteq> [] \<and> total_posts_seen st < TIMELINE_LIMIT")
    case True
    let ?st' = "foldl (process_post u) (st\<lparr>examined := examined st @ [r]\<rparr>) (fa r)"
    have 1: "examined ?st' \<noteq> [] \<longrightarrow> sum_list (map (\<lambda>r. length (fa r)) (butlast (examined ?st'))) < TIMELINE_LIMIT"
      using True Cons.prems(2) by (simp add: butlast_append)
    have 2: "total_posts_seen ?st' = sum_list (map (\<lambda>r. length (fa r)) (examined ?st'))"
      using Cons.prems(2) by simp
    from Cons.IH[OF 1 2] True show ?thesis by simp
  next
    case False
    then show ?thesis using Cons.prems by auto
  qed
qed

lemma timeline_loop_stop:
  "\<exists>rest. pages = drop (length (examined st)) (examined (timeline_loop fa u pages st)) @ rest \<and>
     (rest = [] \<or> hd rest = [] \<or> TIMELINE_LIMIT \<le> total_posts_seen (timeline_loop fa u pages st))"
proof (induction pages arbitrary: st)
  case Nil
  then show ?case by simp
next
  case (Cons r rs)
  show ?case
  proof (cases "r \<noteq> [] \<and> total_posts_seen st < TIMELINE_LIMIT")
    case True
    let ?st' = "foldl (process_post u) (st\<lparr>examined := examined st @ [r]\<rparr>) (fa r)"
    from timeline_loop_prefix[of fa u rs ?st'] obtain d where
      d: "examined (timeline_loop fa u rs ?st') = examined ?st' @ d" by blast
    from Cons.IH[of ?st'] obtain rest where
      rest: "rs = drop (length (examined ?st')) (examined (timeline_loop fa u rs ?st')) @ rest"
        "rest = [] \<or> hd rest = [] \<or> TIMELINE_LIMIT \<le> total_posts_seen (timeline_loop fa u rs ?st')"
      by blast
    have A: "r # rs = drop (length (examined st)) (examined (timeline_loop fa u (r # rs) st)) @ rest"
      using True d rest(1) by simp
    have B: "rest = [] \<or> hd rest = [] \<or> TIMELINE_LIMIT \<le> total_posts_seen (timeline_loop fa u (r # rs) st)"
      using True rest(2) by simp
    show ?thesis using A B by blast
  next
    case False
    then show ?thesis by auto
  qed
qed

text \<open>Where the server-side filter removes nothing, the counter counts raw entries.\<close>

lemma raw_is_total_without_filtering:
  assumes "\<forall>response \<in> set (timeline client). filters_apply client response = response"
  shows "raw_entries_examined (collect client u) = total_posts_seen (collect client u)"
proof -
  define st where "st = collect client u"
  from timeline_loop_prefix[of "filters_apply client" u "timeline client" initial_state]
  have "prefix (examined st) (timeline client)"
    by (auto simp: st_def collect_def initial_state_def)
  then have "set (examined st) \<subseteq> set (timeline client)"
    by (rule set_mono_prefix)
  with assms have "map (filters_apply client) (examined st) = examined st"
    by (simp add: map_idI subset_iff)
  then have "entries_of (filters_apply client) (examined st) = concat (examined st)"
    by (simp add: entries_of_def)
  moreover have "total_posts_seen st = length (entries_of (filters_apply client) (examined st))"
    unfolding st_def collect_def entries_of_def length_concat map_map comp_def
    by (rule timeline_loop_total) (simp add: initial_state_def)
  ultimately show ?thesis
    by (simp add: raw_entries_examined_def st_def length_concat)
qed

text \<open>
  Claim C1, as amended. The limit is tested once per page, against the number of entries
  that survived the server-side filter on the pages before: the responses are examined in
  the order of the timeline; the loop stops only at the end of the timeline, at an empty
  page, or once \<open>total_posts_seen\<close> has reached \<open>TIMELINE_LIMIT\<close>; \<open>total_posts_seen\<close>
  is the number of filtered entries of the responses examined; the filtered entries of all
  examined responses but the last number fewer than \<open>TIMELINE_LIMIT\<close>; when no
  filtered page has more than \<open>k\<close> entries, fewer than \<open>TIMELINE_LIMIT + k\<close> filtered
  entries are iterated over; and when moreover the filter removes nothing, fewer than
  \<open>TIMELINE_LIMIT + k\<close> raw entries are examined.
\<close>

theorem pagination_cap:
  "let st = collect client u; fa = filters_apply client in
     prefix (examined st) (timeline client)
   \<and> (let rest = drop (length (examined st)) (timeline client)
      in rest = [] \<or> hd rest = [] \<or> TIMELINE_LIMIT \<le> total_posts_seen st)
   \<and> total_posts_seen st = length (entries_of fa (examined st))
   \<and> length (entries_of fa (butlast (examined st))) < TIMELINE_LIMIT
   \<and> ((\<forall>response \<in> set (timeline client). length (fa response) \<le> k) \<longrightarrow>
        total_posts_seen st < TIMELINE_LIMIT + k)
   \<and> ((\<forall>response \<in> set (timeline client). fa response = response \<and> length response \<le> k) \<longrightarrow>
        raw_entries_examined st < TIMELINE_LIMIT + k)"
proof -
  define st where "st = collect client u"
  define fa where "fa = filters_apply client"
  have len: "length (entries_of f ps) = sum_list (map (\<lambda>r. length (f r)) ps)" for ps f
    by (simp add: entries_of_def length_concat comp_def)
  from timeline_loop_prefix[of fa u "timeline client" initial_state]
  have pre: "prefix (examined st) (timeline client)"
    by (auto simp: st_def fa_def collect_def initial_state_def)
  from timeline_loop_stop[of "timeline client" initial_state fa u]
  obtain rest where rest: "timeline client = examined st @ rest"
    "rest = [] \<or> hd rest = [] \<or> TIMELINE_LIMIT \<le> total_posts_seen st"
    by (auto simp: st_def fa_def collect_def initial_state_def)
  have stop: "let rest = drop (length (examined st)) (timeline client)
      in rest = [] \<or> hd rest = [] \<or> TIMELINE_LIMIT \<le> total_posts_seen st"
    using rest by (simp add: Let_def)
  have tot: "total_posts_seen st = length (entries_of fa (examined st))"
    unfolding len st_def collect_def fa_def
    by (rule timeline_loop_total) (simp add: initial_state_def)
  have "examined st \<noteq> [] \<longrightarrow> sum_list (map (\<lambda>r. length (fa r)) (butlast (examined st))) < TIMELINE_LIMIT"
    unfolding st_def collect_def fa_def
    by (rule timeline_loop_butlast) (simp_all add: initial_state_def)
  then have bl: "length (entries_of fa (butlast (examined st))) < TIMELINE_LIMIT"
    by (cases "examined st = []") (simp_all add: len TIMELINE_LIMIT_def)
  have bound: "total_posts_seen st < TIMELINE_LIMIT + k"
    if k: "\<forall>response \<in> set (timeline client). length (fa response) \<le> k"
  proof (cases "examined st = []")
    case True
    then show ?thesis using tot by (simp add: len TIMELINE_LIMIT_def)
  next
    case False
    then have split: "examined st = butlast (examined st) @ [last (examined st)]" by simp
    have "last (examined st) \<in> set (timeline client)"
      using False pre by (meson last_in_set set_mono_prefix subsetD)
    then have "length (fa (last (examined st))) \<le> k" using k by blast
    moreover have "total_posts_seen st =
        length (entries_of fa (butlast (examined st))) + length (fa (last (examined st)))"
      using tot by (subst (asm) split) (simp add: len)
    ultimately show ?thesis using bl by linarith
  qed
  have raw: "raw_entries_examined st < TIMELINE_LIMIT + k"
    if k: "\<forall>response \<in> set (timeline client). fa response = response \<and> length response \<le> k"
  proof -
    have "raw_entries_examined st = total_posts_seen st"
      unfolding st_def using k by (intro raw_is_total_without_filtering) (simp add: fa_def)
    moreover have "\<forall>response \<in> set (timeline client). length (fa response) \<le> k"
      using k by simp
    ultimately show ?thesis using bound by simp
  qed
  show ?thesis
    using pre stop tot bl bound raw unfolding st_def[symmetric] fa_def[symmetric] Let_def by blast
qed

lemma timeline_loop_replicate:
  "response \<noteq> [] \<Longrightarrow> n = 0 \<or> total_posts_seen st + (n - 1) * length (fa response) < TIMELINE_LIMIT \<Longrightarrow>
   examined (timeline_loop fa u (replicate n response) st) = examined st @ replicate n response
   \<and> total_posts_seen (timeline_loop fa u (replicate n response) st) =
       total_posts_seen st + n * length (fa response)"
proof (induction n arbitrary: st)
  case 0
  then show ?case by simp
next
  case (Suc n)
  let ?st' = "foldl (process_post u) (st\<lparr>examined := examined st @ [response]\<rparr>) (fa response)"
  have now: "total_posts_seen st < TIMELINE_LIMIT"
    using Suc.prems(2) by (simp add: trans_less_add1)
  have "n = 0 \<or> total_posts_seen ?st' + (n - 1) * length (fa response) < TIMELINE_LIMIT"
    using Suc.prems(2) by (cases n) (simp_all add: algebra_simps)
  from Suc.IH[OF Suc.prems(1) this] now Suc.prems(1)
  show ?case by (simp add: replicate_app_Cons_same)
qed

lemma busy_timeline_state:
  "examined (collect busy_timeline ''viewer'') = timeline busy_timeline
   \<and> total_posts_seen (collect busy_timeline ''viewer'') = 1039"
proof -
  let ?p = "original ''https://m.example/1'' ''muted'' # replicate 39 daves_post"
  let ?fa = "mute ''muted''"
  let ?st = "foldl (process_post ''viewer'') (initial_state\<lparr>examined := [?p]\<rparr>) (?fa ?p)"
  have fa_first: "length (?fa ?p) = 39"
    by (simp add: mute_def original_def daves_post_def)
  have fa_full: "length (?fa (replicate 40 daves_post)) = 40"
    by (simp add: mute_def original_def daves_post_def)
  have st: "total_posts_seen ?st = 39" "examined ?st = [?p]"
    using fa_first by (simp_all add: initial_state_def)
  have ne: "replicate 40 daves_post \<noteq> []" by simp
  have "(25::nat) = 0 \<or> total_posts_seen ?st + (25 - 1) * length (?fa (replicate 40 daves_post)) < TIMELINE_LIMIT"
    using st fa_full by (simp add: TIMELINE_LIMIT_def)
  from timeline_loop_replicate[where response = "replicate 40 daves_post" and n = 25
      and st = ?st and fa = ?fa and u = "''viewer''", OF ne this]
  have "examined (timeline_loop ?fa ''viewer'' (replicate 25 (replicate 40 daves_post)) ?st)
          = ?p # replicate 25 (replicate 40 daves_post)"
    "total_posts_seen (timeline_loop ?fa ''viewer'' (replicate 25 (replicate 40 daves_post)) ?st) = 1039"
    using st fa_full by simp_all
  moreover have "collect busy_timeline ''viewer'' =
      timeline_loop ?fa ''viewer'' (replicate 25 (replicate 40 daves_post)) ?st"
    by (simp add: collect_def busy_timeline_def initial_state_def TIMELINE_LIMIT_def)
  ultimately show ?thesis by (simp add: busy_timeline_def)
qed

text \<open>
  Claim C1 as stated fails: on twenty-six pages of forty entries, one of them removed by the
  server-side filter, the counter stands at 999 after twenty-five pages, the twenty-sixth
  page is examined as well, and 1040 raw entries have been examined.
\<close>

theorem pagination_cap_counterexample:
  "raw_entries_examined (collect busy_timeline ''viewer'') = 1040
   \<and> \<not> raw_entries_examined (collect busy_timeline ''viewer'') \<le> TIMELINE_LIMIT"
proof -
  have "raw_entries_examined (collect busy_timeline ''viewer'') = 1040"
    by (simp add: raw_entries_examined_def busy_timeline_state)
      (simp add: busy_timeline_def sum_list_replicate)
  then show ?thesis by (simp add: TIMELINE_LIMIT_def)
qed

theorem pagination_cap_witness:
  "total_posts_seen (collect busy_timeline ''viewer'') < TIMELINE_LIMIT + 40
   \<and> length (entries_of (mute ''muted'') (butlast (examined (collect busy_timeline ''viewer''))))
       < TIMELINE_LIMIT
   \<and> raw_entries_examined (collect boosted_twice ''viewer'') < TIMELINE_LIMIT + 2"
proof -
  have "\<forall>response \<in> set (timeline busy_timeline).
          length (filters_apply busy_timeline response) \<le> 40"
    by (simp add: busy_timeline_def mute_def original_def daves_post_def)
  moreover have "filters_apply busy_timeline = mute ''muted''"
    by (simp add: busy_timeline_def)
  ultimately have busy: "total_posts_seen (collect busy_timeline ''viewer'') < TIMELINE_LIMIT + 40
   \<and> length (entries_of (mute ''muted'') (butlast (examined (collect busy_timeline ''viewer''))))
       < TIMELINE_LIMIT"
    using pagination_cap [of busy_timeline "''viewer''" 40]
    by (simp add: Let_def)
  have "\<forall>response \<in> set (timeline boosted_twice).
          filters_apply boosted_twice response = response \<and> length response \<le> 2"
    by (simp add: boosted_twice_def no_filters_def)
  then have "raw_entries_examined (collect boosted_twice ''viewer'') < TIMELINE_LIMIT + 2"
    using pagination_cap [of boosted_twice "''viewer''" 2]
    by (simp add: Let_def)
  with busy show ?thesis by blast
qed

subsection \<open>The timelines of the examples\<close>

lemma boosted_twice_viewer:
  "fetch_posts_and_boosts boosted_twice ''viewer'' = ([ScoredPost carols_post], [])"
  by (simp add: fetch_posts_and_boosts_def collect_def boosted_twice_def initial_state_def
      no_filters_def TIMELINE_LIMIT_def process_post_def unwrap_def local_filter_def
      ScoredPost_url_def carols_post_def original_def boost_def Let_def)

lemma boosted_twice_carol:
  "fetch_posts_and_boosts boosted_twice ''carol'' = ([], [])"
  by (simp add: fetch_posts_and_boosts_def collect_def boosted_twice_def initial_state_def
      no_filters_def TIMELINE_LIMIT_def process_post_def unwrap_def local_filter_def
      ScoredPost_url_def carols_post_def original_def boost_def Let_def)

lemma examined_boosted_twice:
  "examined (collect boosted_twice u) = timeline boosted_twice"
  by (simp add: collect_def boosted_twice_def initial_state_def
      no_filters_def TIMELINE_LIMIT_def)

lemma count_url_distinct:
  "distinct (map ScoredPost_url xs) \<Longrightarrow>
   count_url w xs = (if w \<in> set (map ScoredPost_url xs) then 1 else 0)"
  by (induction xs) (auto simp: count_url_def)

subsection \<open>The loop invariant\<close>

lemma collector_inv_examined [simp]:
  "collector_inv u es (st\<lparr>examined := x\<rparr>) = collector_inv u es st"
  by (simp add: collector_inv_def)

lemma collector_inv_step:
  assumes "collector_inv u es st"
  shows "collector_inv u (es @ [e]) (process_post u st e)"
proof (cases "reblog e")
  case None
  then have un: "unwrap e = (e, False)" "underlying e = e"
    by (simp_all add: unwrap_def underlying_def)
  show ?thesis
    using assms None un
    unfolding collector_inv_def process_post_def
    by (auto simp: Let_def ScoredPost_url_def subseq_append_iff intro: subseq_rev_drop_many)
next
  case (Some r)
  then have un: "unwrap e = (r, True)" "underlying e = r"
    by (simp_all add: unwrap_def underlying_def)
  show ?thesis
    using assms Some un
    unfolding collector_inv_def process_post_def
    by (auto simp: Let_def ScoredPost_url_def)
qed

lemma collector_inv_foldl:
  "collector_inv u es st \<Longrightarrow> collector_inv u (es @ xs) (foldl (process_post u) st xs)"
proof (induction xs arbitrary: es st)
  case Nil
  then show ?case by simp
next
  case (Cons x xs)
  from collector_inv_step[OF Cons.prems, of x]
  have "collector_inv u (es @ [x]) (process_post u st x)" .
  from Cons.IH[OF this] show ?case by simp
qed

lemma collector_inv_loop:
  "collector_inv u (entries_of fa (examined st)) st \<Longrightarrow>
   collector_inv u (entries_of fa (examined (timeline_loop fa u pages st)))
     (timeline_loop fa u pages st)"
proof (induction pages arbitrary: st)
  case Nil
  then show ?case by simp
next
  case (Cons r rs)
  show ?case
  proof (cases "r \<noteq> [] \<and> total_posts_seen st < TIMELINE_LIMIT")
    case True
    let ?st' = "foldl (process_post u) (st\<lparr>examined := examined st @ [r]\<rparr>) (fa r)"
    have "collector_inv u (entries_of fa (examined st) @ fa r) ?st'"
      using Cons.prems by (intro collector_inv_foldl) simp
    then have "collector_inv u (entries_of fa (examined ?st')) ?st'"
      by (simp add: entries_of_def)
    from Cons.IH[OF this] True show ?thesis by simp
  next
    case False
    then show ?thesis using Cons.prems by auto
  qed
qed

lemma collector_inv_collect:
  "collector_inv u (entries_of (filters_apply c) (examined (collect c u))) (collect c u)"
  unfolding collect_def
  by (rule collector_inv_loop) (simp add: initial_state_def collector_inv_def entries_of_def)

subsection \<open>Deduplication\<close>

text \<open>
  Claim C2, as amended. The identity URLs of the two returned lists, taken together, are
  pairwise distinct, so no URL is carried by more than one record; and a URL is carried by
  exactly one record whenever some entry iterated over stands for a post with that URL that
  passes the local filter.
\<close>

theorem no_duplicate_urls:
  "let (ps, bs) = fetch_posts_and_boosts client u;
       entries = entries_of (filters_apply client) (examined (collect client u))
   in distinct (map ScoredPost_url (ps @ bs))
    \<and> (\<forall>w. count_url w (ps @ bs) \<le> 1)
    \<and> (\<forall>e \<in> set entries. local_filter u (ScoredPost (underlying e)) \<longrightarrow>
          count_url (url (underlying e)) (ps @ bs) = 1)"
proof -
  define st where "st = collect client u"
  define es where "es = entries_of (filters_apply client) (examined st)"
  have inv: "collector_inv u es st"
    unfolding es_def st_def by (rule collector_inv_collect)
  have d: "distinct (map ScoredPost_url (posts st @ boosts st))"
    using inv unfolding collector_inv_def by blast
  have cnt: "count_url w (posts st @ boosts st) =
      (if w \<in> set (map ScoredPost_url (posts st @ boosts st)) then 1 else 0)" for w
    using d by (rule count_url_distinct)
  have one: "count_url (url (underlying e)) (posts st @ boosts st) = 1"
    if "e \<in> set es" "local_filter u (ScoredPost (underlying e))" for e
  proof -
    have "url (underlying e) \<in> seen_post_urls st"
      using inv that unfolding collector_inv_def by blast
    moreover have "seen_post_urls st = set (map ScoredPost_url (posts st @ boosts st))"
      using inv unfolding collector_inv_def by blast
    ultimately have "url (underlying e) \<in> set (map ScoredPost_url (posts st @ boosts st))"
      by simp
    then show ?thesis by (simp only: cnt if_True)
  qed
  show ?thesis
    unfolding fetch_posts_and_boosts_def Let_def prod.case st_def[symmetric] es_def[symmetric]
    using d cnt one by simp
qed

text \<open>
  Claim C2 as stated fails where the post is excluded: Carol's post is on her own timeline
  once directly and once through each of two boosts, and no record carries its URL.
\<close>

theorem no_duplicate_urls_counterexample:
  "\<not> (let (ps, bs) = fetch_posts_and_boosts boosted_twice ''carol''
      in count_url (url carols_post) (ps @ bs) = 1)"
  by (simp add: boosted_twice_carol count_url_def)

theorem no_duplicate_urls_witness:
  "carols_post \<in> set (entries_of (filters_apply boosted_twice) (examined (collect boosted_twice ''viewer'')))
   \<and> local_filter ''viewer'' (ScoredPost (underlying carols_post))
   \<and> fetch_posts_and_boosts boosted_twice ''viewer'' = ([ScoredPost carols_post], [])
   \<and> count_url (url (underlying carols_post)) ([ScoredPost carols_post] @ []) = 1"
proof -
  have m: "carols_post \<in> set (entries_of (filters_apply boosted_twice)
             (examined (collect boosted_twice ''viewer'')))"
    by (simp add: examined_boosted_twice) (simp add: boosted_twice_def entries_of_def no_filters_def)
  have l: "local_filter ''viewer'' (ScoredPost (underlying carols_post))"
    by (simp add: local_filter_def underlying_def unwrap_def carols_post_def original_def)
  show ?thesis
    using no_duplicate_urls [of boosted_twice "''viewer''"] m l
    by (simp add: Let_def boosted_twice_viewer del: append.simps)
qed

subsection \<open>Local exclusion\<close>

lemma mixed_page_viewer:
  "fetch_posts_and_boosts mixed_page ''viewer'' = ([ScoredPost daves_post], [ScoredPost carols_post])"
  by (simp add: fetch_posts_and_boosts_def collect_def mixed_page_def initial_state_def
      no_filters_def TIMELINE_LIMIT_def process_post_def unwrap_def local_filter_def
      ScoredPost_url_def carols_post_def daves_post_def original_def boost_def Let_def)

text \<open>
  Claim C3. No record of either returned list has the viewer as its author, and none is
  marked as reblogged, favourited or bookmarked by the viewer. The records of the posts list
  are entries iterated over that are no boosts; every record of the boosts list is the post
  boosted by an entry iterated over, so that for a boost the exclusion is evaluated on the
  unwrapped post and not on the boosting entry.
\<close>

theorem local_exclusion:
  "let (ps, bs) = fetch_posts_and_boosts client u;
       entries = entries_of (filters_apply client) (examined (collect client u))
   in (\<forall>p \<in> set (ps @ bs).
         acct (account (info p)) \<noteq> u
         \<and> \<not> reblogged (info p) \<and> \<not> favourited (info p) \<and> \<not> bookmarked (info p))
    \<and> (\<forall>p \<in> set ps. reblog (info p) = None \<and> info p \<in> set entries)
    \<and> (\<forall>b \<in> set bs. \<exists>e \<in> set entries. reblog e = Some (info b))"
proof -
  define st where "st = collect client u"
  define es where "es = entries_of (filters_apply client) (examined st)"
  have inv: "collector_inv u es st"
    unfolding es_def st_def by (rule collector_inv_collect)
  have a: "\<forall>p \<in> set (posts st @ boosts st). local_filter u p"
    using inv unfolding collector_inv_def by blast
  have b: "\<forall>p \<in> set (posts st). reblog (info p) = None \<and> info p \<in> set es"
    using inv unfolding collector_inv_def by blast
  have c: "\<forall>b \<in> set (boosts st). \<exists>e \<in> set es. reblog e = Some (info b)"
    using inv unfolding collector_inv_def by blast
  show ?thesis
    unfolding fetch_posts_and_boosts_def Let_def prod.case st_def[symmetric] es_def[symmetric]
    using a b c by (simp add: local_filter_def)
qed

theorem local_exclusion_witness:
  "fetch_posts_and_boosts mixed_page ''viewer'' = ([ScoredPost daves_post], [ScoredPost carols_post])
   \<and> acct (account daves_post) \<noteq> ''viewer'' \<and> acct (account carols_post) \<noteq> ''viewer''
   \<and> \<not> favourited daves_post \<and> \<not> bookmarked carols_post
   \<and> reblog daves_post = None
   \<and> (\<exists>e. e \<in> set (entries_of (filters_apply mixed_page) (examined (collect mixed_page ''viewer'')))
          \<and> reblog e = Some carols_post)"
  using local_exclusion [of mixed_page "''viewer''"]
  by (simp add: mixed_page_viewer Let_def Bex_def)

section \<open>Properties of the double-precision arithmetic\<close>

text \<open>\<open>scale\<close> reaches \<open>2 ^ 52\<close>, and no earlier exponent does.\<close>

lemma scale_reaches:
  "p \<noteq> 0 \<Longrightarrow> 2 ^ 52 * q \<le> p * 2 ^ scale p q k"
proof (induction p q k rule: scale.induct)
  case (1 p q k)
  show ?case
  proof (cases "2 ^ 52 * q \<le> p * 2 ^ k")
    case True
    then show ?thesis by (subst scale.simps) simp
  next
    case False
    with 1 have "2 ^ 52 * q \<le> p * 2 ^ scale p q (k + 1)" by simp
    with False "1.prems" show ?thesis by (subst scale.simps) simp
  qed
qed

text \<open>Rounding to the nearest integer is off by at most one half.\<close>

lemma round_half_even_error:
  assumes "0 < q"
  shows "\<bar>real (round_half_even p q) - real p / real q\<bar> \<le> 1 / 2"
proof -
  define f where "f = p div q"
  define r where "r = p mod q"
  have p: "p = f * q + r" and r: "r < q"
    using assms by (simp_all add: f_def r_def)
  have frac: "real p / real q = real f + real r / real q"
    using assms by (simp add: p field_simps)
  have rq: "0 \<le> real r / real q" "real r / real q < 1"
    using assms r by simp_all
  consider "2 * r < q" | "q < 2 * r" | "2 * r = q" by linarith
  then show ?thesis
  proof cases
    case 1
    then have "round_half_even p q = f"
      by (simp add: round_half_even_def f_def r_def Let_def)
    moreover from 1 have "real r / real q \<le> 1 / 2"
      using assms by (simp add: field_simps)
    ultimately show ?thesis using frac rq by simp
  next
    case 2
    then have "round_half_even p q = f + 1"
      by (simp add: round_half_even_def f_def r_def Let_def)
    moreover from 2 have "1 / 2 \<le> real r / real q"
      using assms by (simp add: field_simps)
    ultimately show ?thesis using frac rq by simp
  next
    case 3
    then have "round_half_even p q = f \<or> round_half_even p q = f + 1"
      by (simp add: round_half_even_def f_def r_def Let_def)
    moreover from 3 have "real r / real q = 1 / 2"
      using assms by (simp add: field_simps)
    ultimately show ?thesis using frac by auto
  qed
qed

text \<open>The relative error of a rounded quotient is at most \<open>2 ^ - 53\<close>.\<close>

lemma binary64_error:
  assumes "0 < q"
  shows "\<bar>float_value (binary64 p q) - real p / real q\<bar> \<le> real p / real q / 2 ^ 53"
proof (cases "p = 0")
  case True
  then show ?thesis
    by (simp add: float_value_def binary64_def round_half_even_def scale.simps)
next
  case False
  define k where "k = scale p q 0"
  define y where "y = real (p * 2 ^ k) / real q"
  define m where "m = round_half_even (p * 2 ^ k) q"
  have "2 ^ 52 * q \<le> p * 2 ^ k"
    unfolding k_def using False by (rule scale_reaches)
  then have "real (2 ^ 52 * q) \<le> real (p * 2 ^ k)"
    by (rule of_nat_mono)
  then have y: "2 ^ 52 \<le> y"
    using assms by (simp add: y_def field_simps)
  have "\<bar>real m - y\<bar> \<le> 1 / 2"
    unfolding m_def y_def using assms by (rule round_half_even_error)
  also have "\<dots> \<le> y / 2 ^ 53"
    using y by simp
  finally have my: "\<bar>real m - y\<bar> \<le> y / 2 ^ 53" .
  have "\<bar>real m - y\<bar> / 2 ^ k \<le> y / 2 ^ 53 / 2 ^ k"
    by (rule divide_right_mono [OF my]) simp
  moreover have "\<bar>real m - y\<bar> / 2 ^ k = \<bar>real m / 2 ^ k - y / 2 ^ k\<bar>"
  proof -
    have "real m / 2 ^ k - y / 2 ^ k = (real m - y) / 2 ^ k"
      by (simp add: diff_divide_distrib)
    then show ?thesis by (simp only: abs_divide) simp
  qed
  moreover have "y / 2 ^ k = real p / real q"
    by (simp add: y_def)
  moreover have "float_value (binary64 p q) = real m / 2 ^ k"
    by (simp add: float_value_def binary64_def m_def k_def Let_def)
  ultimately show ?thesis by simp
qed

lemma scale_minimal:
  "k \<le> j \<Longrightarrow> j < scale p q k \<Longrightarrow> p * 2 ^ j < 2 ^ 52 * q"
proof (induction p q k rule: scale.induct)
  case (1 p q k)
  show ?case
  proof (cases "p = 0 \<or> 2 ^ 52 * q \<le> p * 2 ^ k")
    case True
    then have "scale p q k = k" by (subst scale.simps) simp
    with "1.prems" show ?thesis by simp
  next
    case False
    then have s: "scale p q k = scale p q (k + 1)" by (subst scale.simps) simp
    show ?thesis
    proof (cases "j = k")
      case True
      with False show ?thesis by simp
    next
      case neq: False
      with "1.prems" s have "k + 1 \<le> j" "j < scale p q (k + 1)" by simp_all
      with "1.IH" [OF False] show ?thesis by simp
    qed
  qed
qed

text \<open>The mantissa of the result has 53 bits.\<close>

lemma binary64_mantissa:
  assumes "p \<noteq> 0" and "0 < q" and "p < 2 ^ 53 * q"
  shows "2 ^ 52 \<le> fst (binary64 p q) \<and> fst (binary64 p q) \<le> 2 ^ 53"
proof -
  define k where "k = scale p q 0"
  define P where "P = p * 2 ^ k"
  have lo: "2 ^ 52 * q \<le> P"
    unfolding P_def k_def using assms(1) by (rule scale_reaches)
  have hi: "P < 2 ^ 53 * q"
  proof (cases k)
    case 0
    then show ?thesis using assms(3) by (simp add: P_def)
  next
    case (Suc j)
    then have "j < scale p q 0" by (simp add: k_def)
    then have "p * 2 ^ j < 2 ^ 52 * q" by (intro scale_minimal) simp_all
    then have "2 * (p * 2 ^ j) < 2 * (2 ^ 52 * q)" by simp
    then show ?thesis by (simp add: P_def Suc)
  qed
  have f_lo: "2 ^ 52 \<le> P div q"
    using lo assms(2) by (simp add: less_eq_div_iff_mult_less_eq mult.commute)
  have f_hi: "P div q < 2 ^ 53"
    using hi assms(2) by (simp add: div_less_iff_less_mult mult.commute)
  have "P div q \<le> round_half_even P q" "round_half_even P q \<le> P div q + 1"
    by (simp_all add: round_half_even_def Let_def)
  with f_lo f_hi have "2 ^ 52 \<le> round_half_even P q \<and> round_half_even P q \<le> 2 ^ 53"
    by linarith
  then show ?thesis
    by (simp add: binary64_def Let_def k_def[symmetric] P_def)
qed

text \<open>The quotients and products of the examples.\<close>

lemmas float_eval = float_mul_def float_div_def binary64_def round_half_even_def scale.simps

lemma float_div_50_11: "float_div 50 11 = (5117726849284655, 50)"
  by (simp add: float_eval)

lemma float_mul_11: "float_mul 11 (5117726849284655, 50) = (7036874417766401, 47)"
  by (simp add: float_eval)


lemma float_595: "float_value (float_mul 1071 (float_div 50 595)) = 6333186975989761 / 2 ^ 46"
  by (simp add: float_eval float_value_def)

section \<open>Properties of the percentile\<close>

text \<open>In the library function, \<open>left\<close> never exceeds \<open>right\<close>.\<close>

lemma left_le_right:
  fixes score :: real
  shows "length (filter (\<lambda>x. x < score) a) \<le> length (filter (\<lambda>x. x \<le> score) a)"
  by (induction a) auto

lemma percentile_rank_le_100:
  assumes "a \<noteq> []"
  shows "percentile_rank a s \<le> 100"
proof -
  define l where "l = length (filter (\<lambda>x. x < s) a)"
  define r where "r = length (filter (\<lambda>x. x \<le> s) a)"
  define n where "n = length a"
  have n: "0 < n" using assms by (simp add: n_def)
  have rn: "r \<le> n" by (simp add: r_def n_def)
  have lr: "l \<le> r"
    unfolding l_def r_def by (rule left_le_right)
  have "l + r + (if l < r then 1 else 0) \<le> 2 * n"
    using rn lr by (simp split: if_splits)
  then have "real (l + r + (if l < r then 1 else 0)) \<le> 2 * real n"
    by (metis of_nat_le_iff of_nat_mult of_nat_numeral)
  then have "real (l + r + (if l < r then 1 else 0)) * 50 / real n \<le> 100"
    using n by (simp add: field_simps)
  then show ?thesis
    by (simp add: percentile_rank_def rank_sum_def Let_def l_def r_def n_def)
qed

lemma percentile_rank_nonneg: "0 \<le> percentile_rank a s"
  by (simp add: percentile_rank_def)

lemma percentileofscore_eq:
  "percentileofscore a s =
     (if a = [] then None
      else Some (float_value (float_mul (rank_sum a s) (float_div 50 (length a)))))"
  by (simp add: percentileofscore_def rank_sum_def Let_def)

lemma percentileofscore_close:
  assumes "percentileofscore a s = Some v"
  shows "\<bar>v - percentile_rank a s\<bar> \<le> 1 / 2 ^ 45"
proof -
  define M where "M = rank_sum a s"
  define n where "n = length a"
  define c where "c = float_div 50 n"
  define E where "E = percentile_rank a s"
  define P where "P = real M * float_value c"
  define u :: real where "u = 1 / 2 ^ 53"
  from assms have n: "0 < n" and ne: "a \<noteq> []"
    by (auto simp: percentileofscore_eq n_def split: if_splits)
  from assms have v: "v = float_value (float_mul M c)"
    by (auto simp: percentileofscore_eq M_def c_def n_def split: if_splits)
  have E: "E = real M * (50 / real n)"
    by (simp add: E_def percentile_rank_def M_def n_def)
  have E100: "E \<le> 100" "0 \<le> E"
    unfolding E_def using ne by (simp_all add: percentile_rank_le_100 percentile_rank_nonneg)
  have "\<bar>float_value c - real 50 / real n\<bar> \<le> real 50 / real n / 2 ^ 53"
    unfolding c_def float_div_def using n by (rule binary64_error)
  then have cerr: "\<bar>float_value c - 50 / real n\<bar> \<le> 50 / real n * u"
    by (simp add: u_def)
  have "P - E = real M * (float_value c - 50 / real n)"
    by (simp add: P_def E algebra_simps)
  then have "\<bar>P - E\<bar> = real M * \<bar>float_value c - 50 / real n\<bar>"
    by (simp only: abs_mult abs_of_nat)
  also have "\<dots> \<le> real M * (50 / real n * u)"
    using cerr by (intro mult_left_mono) simp_all
  also have "\<dots> = E * u" by (simp add: E)
  finally have PE: "\<bar>P - E\<bar> \<le> E * u" .
  have Ppos: "0 \<le> P" by (simp add: P_def float_value_def)
  have "P = real (M * fst c) / real (2 ^ snd c)"
    by (simp add: P_def float_value_def)
  moreover have "\<bar>float_value (binary64 (M * fst c) (2 ^ snd c))
      - real (M * fst c) / real (2 ^ snd c)\<bar> \<le> real (M * fst c) / real (2 ^ snd c) / 2 ^ 53"
    by (rule binary64_error) simp
  ultimately have vP: "\<bar>v - P\<bar> \<le> P * u"
    by (simp add: v float_mul_def u_def)
  have "P \<le> E + E * u" using PE by linarith
  then have "P * u \<le> (E + E * u) * u"
    by (intro mult_right_mono) (simp_all add: u_def)
  then have "\<bar>v - E\<bar> \<le> (E + E * u) * u + E * u"
    using vP PE by linarith
  also have "\<dots> = E * (u * (2 + u))" by (simp add: algebra_simps)
  also have "\<dots> \<le> 100 * (u * (2 + u))"
    using E100 by (intro mult_right_mono) (simp_all add: u_def)
  also have "\<dots> \<le> 1 / 2 ^ 45" by (simp add: u_def)
  finally show ?thesis by (simp add: E_def)
qed

lemma percentile_rank_gap:
  assumes "a \<noteq> []" and "percentile_rank a s \<noteq> real_of_int t"
  shows "1 / real (length a) \<le> \<bar>percentile_rank a s - real_of_int t\<bar>"
proof -
  define M where "M = rank_sum a s"
  define n where "n = length a"
  define d where "d = int M * 50 - t * int n"
  have n: "0 < n" using assms(1) by (simp add: n_def)
  have E: "percentile_rank a s = real M * 50 / real n"
    by (simp add: percentile_rank_def M_def n_def)
  have diff: "percentile_rank a s - real_of_int t = real_of_int d / real n"
    using n by (simp add: E d_def field_simps)
  from assms(2) diff have "d \<noteq> 0" by auto
  then have "1 \<le> \<bar>real_of_int d\<bar>" by (simp add: abs_if)
  then have "1 / real n \<le> \<bar>real_of_int d\<bar> / real n"
    using n by (simp add: divide_right_mono)
  then show ?thesis
    unfolding diff n_def[symmetric] using n by simp
qed

lemma percentileofscore_decided:
  assumes "percentileofscore a s = Some v" and "length a < 2 ^ 45"
  shows "real_of_int t < percentile_rank a s \<Longrightarrow> real_of_int t < v"
    and "percentile_rank a s < real_of_int t \<Longrightarrow> v < real_of_int t"
proof -
  from assms(1) have ne: "a \<noteq> []"
    by (auto simp: percentileofscore_eq split: if_splits)
  then have n: "0 < real (length a)" by simp
  have "real (length a) < 2 ^ 45"
    using assms(2) by (metis of_nat_less_iff of_nat_numeral of_nat_power)
  then have small: "1 / 2 ^ 45 < 1 / real (length a)"
    using n by (simp add: field_simps)
  note close = percentileofscore_close [OF assms(1)]
  {
    assume lt: "real_of_int t < percentile_rank a s"
    with percentile_rank_gap [OF ne, of s t]
    have "1 / real (length a) \<le> percentile_rank a s - real_of_int t" by simp
    with small close show "real_of_int t < v" by linarith
  }
  {
    assume gt: "percentile_rank a s < real_of_int t"
    with percentile_rank_gap [OF ne, of s t]
    have "1 / real (length a) \<le> real_of_int t - percentile_rank a s" by simp
    with small close show "v < real_of_int t" by linarith
  }
qed

text \<open>A quotient that is an integer is computed exactly.\<close>

lemma binary64_exact:
  assumes "0 < q" and "p = x * q"
  shows "float_value (binary64 p q) = real x"
proof -
  define k where "k = scale p q 0"
  have "round_half_even (p * 2 ^ k) q = x * 2 ^ k"
    using assms by (simp add: round_half_even_def)
  then show ?thesis
    by (simp add: float_value_def binary64_def k_def[symmetric] Let_def)
qed

lemma float_mul_exact:
  assumes "float_value c = real x"
  shows "float_value (float_mul i c) = real (i * x)"
proof -
  from assms have "real (fst c) = real (x * 2 ^ snd c)"
    by (simp add: float_value_def field_simps)
  then have "fst c = x * 2 ^ snd c"
    by (simp only: of_nat_eq_iff)
  then have "i * fst c = (i * x) * 2 ^ snd c" by simp
  then show ?thesis
    unfolding float_mul_def by (intro binary64_exact) simp_all
qed

text \<open>When the size of the sample divides 50, the percentile is computed exactly.\<close>

lemma percentileofscore_exact:
  assumes "50 = c * length a"
  shows "percentileofscore a s = Some (percentile_rank a s)"
proof -
  from assms have n: "0 < length a" by (cases "length a = 0") simp_all
  then have ne: "a \<noteq> []" by simp
  have "float_value (float_div 50 (length a)) = real c"
    unfolding float_div_def using n assms by (rule binary64_exact)
  then have "float_value (float_mul (rank_sum a s) (float_div 50 (length a)))
      = real (rank_sum a s * c)"
    by (rule float_mul_exact)
  moreover have "real c = 50 / real (length a)"
  proof -
    have "real (50::nat) = real (c * length a)" using assms by simp
    then show ?thesis using n by (simp add: field_simps)
  qed
  ultimately show ?thesis
    using ne by (simp add: percentileofscore_eq percentile_rank_def)
qed

section \<open>Properties of the selector\<close>

lemma percentileofscore_defined:
  "a \<noteq> [] \<Longrightarrow> \<exists>v. percentileofscore a s = Some v"
  by (simp add: percentileofscore_eq)


lemma percentileofscore_exact_sizes:
  "length a = 1 \<Longrightarrow> percentileofscore a s = Some (percentile_rank a s)"
  "length a = 2 \<Longrightarrow> percentileofscore a s = Some (percentile_rank a s)"
  "length a = 10 \<Longrightarrow> percentileofscore a s = Some (percentile_rank a s)"
  using percentileofscore_exact [of 50 a s] percentileofscore_exact [of 25 a s]
    percentileofscore_exact [of 5 a s]
  by simp_all



lemma select_digest_fst:
  "fst (select_digest scorer threshold ps bs) =
     filter (\<lambda>p. exceeds (percentileofscore (map (\<lambda>q. get_score q scorer) ps) (get_score p scorer)) threshold) ps"
  by (simp add: select_digest_def Let_def)

lemma select_digest_snd:
  "snd (select_digest scorer threshold ps bs) =
     filter (\<lambda>p. exceeds (percentileofscore (map (\<lambda>q. get_score q scorer) bs) (get_score p scorer)) threshold) bs"
  by (simp add: select_digest_def Let_def)

lemma exceeds_mono:
  "t1 \<le> t2 \<Longrightarrow> exceeds v t2 \<Longrightarrow> exceeds v t1"
  by (cases v) (auto simp: exceeds_def)

lemma subseq_filter_mono:
  "(\<And>x. x \<in> set xs \<Longrightarrow> P x \<Longrightarrow> Q x) \<Longrightarrow> subseq (filter P xs) (filter Q xs)"
  by (induction xs) (auto)

lemmas example_eval = ten_posts_def two_boosts_def liked_def by_favourites_def
  by_favourites_and_boosts_def get_score_def percentileofscore_exact_sizes
  percentile_rank_def rank_sum_def

lemma ten_posts_percentiles:
  "map (\<lambda>p. percentileofscore (map (\<lambda>q. get_score q by_favourites) ten_posts)
          (get_score p by_favourites)) ten_posts =
     [Some 10, Some 20, Some 30, Some 40, Some 50, Some 60, Some 70, Some 80, Some 90, Some 100]"
  by (simp add: example_eval)

lemma ten_posts_lax:
  "select_digest by_favourites 90 ten_posts two_boosts =
     ([liked ''https://d.example/10'' 10], [two_boosts ! 1])"
  by (simp add: select_digest_def example_eval exceeds_def)

lemma ten_posts_80:
  "select_digest by_favourites 80 ten_posts two_boosts =
     ([liked ''https://d.example/09'' 9, liked ''https://d.example/10'' 10], [two_boosts ! 1])"
  by (simp add: select_digest_def example_eval exceeds_def)

lemma ten_posts_50:
  "select_digest by_favourites 50 ten_posts two_boosts =
     (drop 5 ten_posts, [two_boosts ! 1])"
  "select_digest by_favourites_and_boosts 50 ten_posts [] = (drop 5 ten_posts, [])"
  "select_digest by_favourites_and_boosts 50 ten_posts two_boosts =
     (drop 5 ten_posts, [two_boosts ! 0])"
  by (simp_all add: select_digest_def example_eval exceeds_def)

text \<open>The eleven posts: the tied pair and the top post.\<close>

lemma eleven_posts_scores:
  "map (\<lambda>q. get_score q by_favourites) eleven_posts = [1, 2, 3, 4, 6, 6, 7, 8, 9, 10, 11]"
  by (simp add: eleven_posts_def liked_def by_favourites_def get_score_def)

lemma eleven_posts_length: "length eleven_posts = 11"
  by (simp add: eleven_posts_def)

lemma eleven_posts_tied:
  "percentile_rank (map (\<lambda>q. get_score q by_favourites) eleven_posts) 6 = 50"
  "percentileofscore (map (\<lambda>q. get_score q by_favourites) eleven_posts) 6
     = Some (7036874417766401 / 2 ^ 47)"
proof -
  have r: "rank_sum (map (\<lambda>q. get_score q by_favourites) eleven_posts) 6 = 11"
    by (simp add: eleven_posts_scores rank_sum_def)
  have n: "length (map (\<lambda>q. get_score q by_favourites) eleven_posts) = 11"
    by (simp add: eleven_posts_scores)
  show "percentile_rank (map (\<lambda>q. get_score q by_favourites) eleven_posts) 6 = 50"
    by (simp add: percentile_rank_def r eleven_posts_length)
  have "map (\<lambda>q. get_score q by_favourites) eleven_posts \<noteq> []"
    by (simp add: eleven_posts_scores)
  then show "percentileofscore (map (\<lambda>q. get_score q by_favourites) eleven_posts) 6
     = Some (7036874417766401 / 2 ^ 47)"
    by (simp only: percentileofscore_eq r n float_div_50_11 float_mul_11 if_False)
      (simp add: float_value_def)
qed


text \<open>The 595 posts: the tied pair.\<close>

lemma numbered_scores:
  "map (\<lambda>q. get_score q by_favourites) (map (\<lambda>i. numbered i n) xs)
     = replicate (length xs) (real n)"
  by (simp add: numbered_def liked_def by_favourites_def get_score_def comp_def
      map_replicate_const)

lemma many_posts_scores:
  "map (\<lambda>q. get_score q by_favourites) many_posts = replicate 534 1 @ [5, 5] @ replicate 59 9"
proof -
  have "get_score (numbered i n) by_favourites = real n" for i n
    by (simp add: numbered_def liked_def by_favourites_def get_score_def)
  then show ?thesis
    unfolding many_posts_def map_append numbered_scores
    by (simp del: upt_rec_numeral)
qed

lemma many_posts_length: "length many_posts = 595"
  by (simp add: many_posts_def del: upt_rec_numeral)


lemma many_posts_tied:
  "percentile_rank (map (\<lambda>q. get_score q by_favourites) many_posts) 5 = 90"
  "percentileofscore (map (\<lambda>q. get_score q by_favourites) many_posts) 5
     = Some (6333186975989761 / 2 ^ 46)"
proof -
  have r: "rank_sum (map (\<lambda>q. get_score q by_favourites) many_posts) 5 = 1071"
    by (simp add: many_posts_scores rank_sum_def)
  have n: "length (map (\<lambda>q. get_score q by_favourites) many_posts) = 595"
    by (simp add: many_posts_scores)
  show "percentile_rank (map (\<lambda>q. get_score q by_favourites) many_posts) 5 = 90"
    by (simp add: percentile_rank_def r many_posts_length)
  have "map (\<lambda>q. get_score q by_favourites) many_posts \<noteq> []"
    by (simp add: many_posts_scores)
  then show "percentileofscore (map (\<lambda>q. get_score q by_favourites) many_posts) 5
     = Some (6333186975989761 / 2 ^ 46)"
    by (simp only: percentileofscore_eq r n float_595 if_False)
qed

text \<open>
  Claim C4, as amended. Of each list the selector retains exactly the posts whose
  percentile, as \<open>percentileofscore\<close> computes it in double precision from the scores of
  that same list, is strictly greater than the threshold, in their order; a post whose
  computed percentile equals the threshold is not retained. In a list of fewer than
  \<open>2 ^ 45\<close> posts, a post whose exact percentile rank is above the threshold is retained and
  a post whose exact percentile rank is below the threshold is not: only at an exact rank
  equal to the threshold does the rounding decide.
\<close>

theorem strict_threshold:
  "fst (select_digest scorer threshold ps bs) =
     filter (\<lambda>p. \<exists>v. percentileofscore (map (\<lambda>q. get_score q scorer) ps) (get_score p scorer) = Some v
                   \<and> real_of_int threshold < v) ps
   \<and> snd (select_digest scorer threshold ps bs) =
     filter (\<lambda>p. \<exists>v. percentileofscore (map (\<lambda>q. get_score q scorer) bs) (get_score p scorer) = Some v
                   \<and> real_of_int threshold < v) bs
   \<and> (\<forall>p. percentileofscore (map (\<lambda>q. get_score q scorer) ps) (get_score p scorer)
            = Some (real_of_int threshold) \<longrightarrow>
          p \<notin> set (fst (select_digest scorer threshold ps bs)))
   \<and> (\<forall>p. percentileofscore (map (\<lambda>q. get_score q scorer) bs) (get_score p scorer)
            = Some (real_of_int threshold) \<longrightarrow>
          p \<notin> set (snd (select_digest scorer threshold ps bs)))
   \<and> (length ps < 2 ^ 45 \<longrightarrow>
        (\<forall>p \<in> set ps.
           (real_of_int threshold
              < percentile_rank (map (\<lambda>q. get_score q scorer) ps) (get_score p scorer) \<longrightarrow>
            p \<in> set (fst (select_digest scorer threshold ps bs)))
         \<and> (percentile_rank (map (\<lambda>q. get_score q scorer) ps) (get_score p scorer)
              < real_of_int threshold \<longrightarrow>
            p \<notin> set (fst (select_digest scorer threshold ps bs)))))
   \<and> (length bs < 2 ^ 45 \<longrightarrow>
        (\<forall>p \<in> set bs.
           (real_of_int threshold
              < percentile_rank (map (\<lambda>q. get_score q scorer) bs) (get_score p scorer) \<longrightarrow>
            p \<in> set (snd (select_digest scorer threshold ps bs)))
         \<and> (percentile_rank (map (\<lambda>q. get_score q scorer) bs) (get_score p scorer)
              < real_of_int threshold \<longrightarrow>
            p \<notin> set (snd (select_digest scorer threshold ps bs)))))"
proof -
  have ex: "exceeds pc threshold \<longleftrightarrow> (\<exists>v. pc = Some v \<and> real_of_int threshold < v)" for pc
    by (cases pc) (simp_all add: exceeds_def)
  have decided:
    "(real_of_int threshold < percentile_rank (map (\<lambda>q. get_score q scorer) xs) (get_score p scorer)
        \<longrightarrow> exceeds (percentileofscore (map (\<lambda>q. get_score q scorer) xs) (get_score p scorer)) threshold)
     \<and> (percentile_rank (map (\<lambda>q. get_score q scorer) xs) (get_score p scorer) < real_of_int threshold
        \<longrightarrow> \<not> exceeds (percentileofscore (map (\<lambda>q. get_score q scorer) xs) (get_score p scorer)) threshold)"
    if len: "length xs < 2 ^ 45" and p: "p \<in> set xs" for xs p
  proof -
    let ?a = "map (\<lambda>q. get_score q scorer) xs"
    let ?s = "get_score p scorer"
    from p have "?a \<noteq> []" by auto
    then obtain v where v: "percentileofscore ?a ?s = Some v"
      using percentileofscore_defined by blast
    have l: "length ?a < 2 ^ 45" using len by simp
    from percentileofscore_decided [OF v l, of threshold] v
    show ?thesis by (auto simp: exceeds_def)
  qed
  have 1: "fst (select_digest scorer threshold ps bs) =
     filter (\<lambda>p. \<exists>v. percentileofscore (map (\<lambda>q. get_score q scorer) ps) (get_score p scorer) = Some v
                   \<and> real_of_int threshold < v) ps"
    by (simp add: select_digest_fst ex)
  have 2: "snd (select_digest scorer threshold ps bs) =
     filter (\<lambda>p. \<exists>v. percentileofscore (map (\<lambda>q. get_score q scorer) bs) (get_score p scorer) = Some v
                   \<and> real_of_int threshold < v) bs"
    by (simp add: select_digest_snd ex)
  have 3: "\<forall>p. percentileofscore (map (\<lambda>q. get_score q scorer) ps) (get_score p scorer)
            = Some (real_of_int threshold) \<longrightarrow>
          p \<notin> set (fst (select_digest scorer threshold ps bs))"
    by (simp add: select_digest_fst exceeds_def)
  have 4: "\<forall>p. percentileofscore (map (\<lambda>q. get_score q scorer) bs) (get_score p scorer)
            = Some (real_of_int threshold) \<longrightarrow>
          p \<notin> set (snd (select_digest scorer threshold ps bs))"
    by (simp add: select_digest_snd exceeds_def)
  have 5: "length ps < 2 ^ 45 \<longrightarrow>
        (\<forall>p \<in> set ps.
           (real_of_int threshold
              < percentile_rank (map (\<lambda>q. get_score q scorer) ps) (get_score p scorer) \<longrightarrow>
            p \<in> set (fst (select_digest scorer threshold ps bs)))
         \<and> (percentile_rank (map (\<lambda>q. get_score q scorer) ps) (get_score p scorer)
              < real_of_int threshold \<longrightarrow>
            p \<notin> set (fst (select_digest scorer threshold ps bs))))"
    using decided [of ps] by (simp add: select_digest_fst)
  have 6: "length bs < 2 ^ 45 \<longrightarrow>
        (\<forall>p \<in> set bs.
           (real_of_int threshold
              < percentile_rank (map (\<lambda>q. get_score q scorer) bs) (get_score p scorer) \<longrightarrow>
            p \<in> set (snd (select_digest scorer threshold ps bs)))
         \<and> (percentile_rank (map (\<lambda>q. get_score q scorer) bs) (get_score p scorer)
              < real_of_int threshold \<longrightarrow>
            p \<notin> set (snd (select_digest scorer threshold ps bs))))"
    using decided [of bs] by (simp add: select_digest_snd)
  from 1 2 3 4 5 6 show ?thesis by (intro conjI)
qed

text \<open>
  Claim C4 as stated fails at an exact tie. Of eleven posts, the two with six favourites have
  the exact percentile rank 50, and under the threshold 50 both are retained: the code
  computes \<open>11 * (50.0 / 11)\<close>, which is above 50 by one unit in the last place. Of 595 posts,
  the two with five favourites have the exact percentile rank 90, and under the threshold
  90 (lax) both are retained.
\<close>

theorem strict_threshold_counterexample:
  "percentile_rank (map (\<lambda>q. get_score q by_favourites) eleven_posts)
     (get_score (liked ''https://d.example/05'' 6) by_favourites) = real_of_int 50
   \<and> liked ''https://d.example/05'' 6 \<in> set (fst (select_digest by_favourites 50 eleven_posts []))
   \<and> percentile_rank (map (\<lambda>q. get_score q by_favourites) many_posts)
     (get_score (numbered 534 5) by_favourites) = real_of_int 90
   \<and> numbered 534 5 \<in> set (fst (select_digest by_favourites 90 many_posts []))"
proof -
  have s6: "get_score (liked ''https://d.example/05'' 6) by_favourites = 6"
    by (simp add: liked_def by_favourites_def get_score_def)
  have s5: "get_score (numbered 534 5) by_favourites = 5"
    by (simp add: numbered_def liked_def by_favourites_def get_score_def)
  have m6: "liked ''https://d.example/05'' 6 \<in> set eleven_posts"
    by (simp add: eleven_posts_def)
  have m5: "numbered 534 5 \<in> set many_posts"
    by (simp add: many_posts_def del: upt_rec_numeral)
  have e6: "exceeds (percentileofscore (map (\<lambda>q. get_score q by_favourites) eleven_posts) 6) 50"
    by (simp add: eleven_posts_tied exceeds_def)
  have e5: "exceeds (percentileofscore (map (\<lambda>q. get_score q by_favourites) many_posts) 5) 90"
    by (simp add: many_posts_tied exceeds_def)
  show ?thesis
    using m6 m5 e6 e5
    by (simp add: select_digest_fst s6 s5 eleven_posts_tied many_posts_tied)
qed

theorem strict_threshold_witness:
  "percentileofscore (map (\<lambda>q. get_score q by_favourites) ten_posts)
     (get_score (liked ''https://d.example/09'' 9) by_favourites) = Some (real_of_int 90)
   \<and> liked ''https://d.example/09'' 9 \<in> set ten_posts
   \<and> liked ''https://d.example/09'' 9 \<notin> set (fst (select_digest by_favourites 90 ten_posts two_boosts))
   \<and> fst (select_digest by_favourites 90 ten_posts two_boosts) = [liked ''https://d.example/10'' 10]
   \<and> percentileofscore (map (\<lambda>q. get_score q by_favourites) two_boosts)
     (get_score (two_boosts ! 0) by_favourites) = Some (real_of_int 50)
   \<and> two_boosts ! 0 \<notin> set (snd (select_digest by_favourites 50 ten_posts two_boosts))
   \<and> length ten_posts < 2 ^ 45
   \<and> real_of_int 90 < percentile_rank (map (\<lambda>q. get_score q by_favourites) ten_posts)
        (get_score (liked ''https://d.example/10'' 10) by_favourites)
   \<and> liked ''https://d.example/10'' 10 \<in> set (fst (select_digest by_favourites 90 ten_posts two_boosts))
   \<and> percentile_rank (map (\<lambda>q. get_score q by_favourites) ten_posts)
        (get_score (liked ''https://d.example/08'' 8) by_favourites) < real_of_int 90
   \<and> liked ''https://d.example/08'' 8 \<notin> set (fst (select_digest by_favourites 90 ten_posts two_boosts))
   \<and> length two_boosts < 2 ^ 45
   \<and> real_of_int 50 < percentile_rank (map (\<lambda>q. get_score q by_favourites) two_boosts)
        (get_score (two_boosts ! 1) by_favourites)
   \<and> two_boosts ! 1 \<in> set (snd (select_digest by_favourites 50 ten_posts two_boosts))"
proof -
  note lax = strict_threshold [of by_favourites 90 ten_posts two_boosts]
  note half = strict_threshold [of by_favourites 50 ten_posts two_boosts]
  have pc: "percentileofscore (map (\<lambda>q. get_score q by_favourites) ten_posts)
     (get_score (liked ''https://d.example/09'' 9) by_favourites) = Some (real_of_int 90)"
    by (simp add: example_eval)
  have x9: "liked ''https://d.example/09'' 9 \<notin> set (fst (select_digest by_favourites 90 ten_posts two_boosts))"
    using lax pc by blast
  have m: "liked ''https://d.example/09'' 9 \<in> set ten_posts"
    "liked ''https://d.example/10'' 10 \<in> set ten_posts"
    "liked ''https://d.example/08'' 8 \<in> set ten_posts"
    by (simp_all add: ten_posts_def)
  have pb: "percentileofscore (map (\<lambda>q. get_score q by_favourites) two_boosts)
     (get_score (two_boosts ! 0) by_favourites) = Some (real_of_int 50)"
    by (simp add: example_eval)
  have xb: "two_boosts ! 0 \<notin> set (snd (select_digest by_favourites 50 ten_posts two_boosts))"
    using half pb by blast
  have len: "length ten_posts < 2 ^ 45" "length two_boosts < 2 ^ 45"
    by (simp_all add: ten_posts_def two_boosts_def)
  have r10: "real_of_int 90 < percentile_rank (map (\<lambda>q. get_score q by_favourites) ten_posts)
        (get_score (liked ''https://d.example/10'' 10) by_favourites)"
    by (simp add: example_eval)
  have r8: "percentile_rank (map (\<lambda>q. get_score q by_favourites) ten_posts)
        (get_score (liked ''https://d.example/08'' 8) by_favourites) < real_of_int 90"
    by (simp add: example_eval)
  have mb: "two_boosts ! 1 \<in> set two_boosts"
    by (simp add: two_boosts_def)
  have rb: "real_of_int 50 < percentile_rank (map (\<lambda>q. get_score q by_favourites) two_boosts)
        (get_score (two_boosts ! 1) by_favourites)"
    by (simp add: example_eval)
  have i10: "liked ''https://d.example/10'' 10 \<in> set (fst (select_digest by_favourites 90 ten_posts two_boosts))"
    using lax len(1) m(2) r10 by blast
  have x8: "liked ''https://d.example/08'' 8 \<notin> set (fst (select_digest by_favourites 90 ten_posts two_boosts))"
    using lax len(1) m(3) r8 by blast
  have ib: "two_boosts ! 1 \<in> set (snd (select_digest by_favourites 50 ten_posts two_boosts))"
    using half len(2) mb rb by blast
  have f: "fst (select_digest by_favourites 90 ten_posts two_boosts) = [liked ''https://d.example/10'' 10]"
    by (simp add: ten_posts_lax)
  from pc m(1) x9 f pb xb len(1) r10 i10 r8 x8 len(2) rb ib show ?thesis by (intro conjI)
qed






text \<open>
  Claim C6. For a fixed pair of lists and a fixed scorer, raising the threshold never adds
  a post: what is retained at the higher threshold is a subsequence, and a subset, of what
  is retained at the lower one.
\<close>

theorem threshold_monotone:
  assumes "t1 \<le> t2"
  shows "subseq (fst (select_digest scorer t2 ps bs)) (fst (select_digest scorer t1 ps bs))
       \<and> subseq (snd (select_digest scorer t2 ps bs)) (snd (select_digest scorer t1 ps bs))
       \<and> set (fst (select_digest scorer t2 ps bs)) \<subseteq> set (fst (select_digest scorer t1 ps bs))
       \<and> set (snd (select_digest scorer t2 ps bs)) \<subseteq> set (snd (select_digest scorer t1 ps bs))"
proof -
  have 1: "subseq (fst (select_digest scorer t2 ps bs)) (fst (select_digest scorer t1 ps bs))"
    unfolding select_digest_fst
    by (rule subseq_filter_mono) (rule exceeds_mono [OF assms])
  have 2: "subseq (snd (select_digest scorer t2 ps bs)) (snd (select_digest scorer t1 ps bs))"
    unfolding select_digest_snd
    by (rule subseq_filter_mono) (rule exceeds_mono [OF assms])
  have 3: "set (fst (select_digest scorer t2 ps bs)) \<subseteq> set (fst (select_digest scorer t1 ps bs))"
    unfolding select_digest_fst using exceeds_mono [OF assms] by auto
  have 4: "set (snd (select_digest scorer t2 ps bs)) \<subseteq> set (snd (select_digest scorer t1 ps bs))"
    unfolding select_digest_snd using exceeds_mono [OF assms] by auto
  show ?thesis using 1 2 3 4 by blast
qed

theorem threshold_monotone_witness:
  "(80::int) \<le> 90
   \<and> fst (select_digest by_favourites 90 ten_posts two_boosts) = [liked ''https://d.example/10'' 10]
   \<and> fst (select_digest by_favourites 80 ten_posts two_boosts)
       = [liked ''https://d.example/09'' 9, liked ''https://d.example/10'' 10]
   \<and> subseq (fst (select_digest by_favourites 90 ten_posts two_boosts))
        (fst (select_digest by_favourites 80 ten_posts two_boosts))
   \<and> set (snd (select_digest by_favourites 90 ten_posts two_boosts))
        \<subseteq> set (snd (select_digest by_favourites 80 ten_posts two_boosts))"
proof -
  have h: "(80::int) \<le> 90" by simp
  show ?thesis
    using h threshold_monotone [OF h, of by_favourites ten_posts two_boosts]
    by (simp add: ten_posts_lax ten_posts_80)
qed

text \<open>
  Claim C7. Two runs with the same posts list and the same threshold, whose scorers agree
  on the posts, retain the same posts, whatever their boosts lists and the scores of the
  boosts are; and symmetrically for the boosts.
\<close>

theorem category_isolation:
  "((\<forall>p \<in> set ps. get_score p scorer = get_score p scorer') \<longrightarrow>
      fst (select_digest scorer threshold ps bs) = fst (select_digest scorer' threshold ps bs'))
   \<and> ((\<forall>b \<in> set bs. get_score b scorer = get_score b scorer') \<longrightarrow>
      snd (select_digest scorer threshold ps bs) = snd (select_digest scorer' threshold ps' bs))"
proof -
  have "filter (\<lambda>p. exceeds (percentileofscore (map (\<lambda>q. get_score q scorer) xs) (get_score p scorer)) threshold) xs
      = filter (\<lambda>p. exceeds (percentileofscore (map (\<lambda>q. get_score q scorer') xs) (get_score p scorer')) threshold) xs"
    if "\<forall>p \<in> set xs. get_score p scorer = get_score p scorer'" for xs
  proof -
    have m: "map (\<lambda>q. get_score q scorer) xs = map (\<lambda>q. get_score q scorer') xs"
      using that by simp
    show ?thesis
      unfolding m by (rule filter_cong [OF refl]) (simp add: that)
  qed
  then show ?thesis
    by (simp add: select_digest_fst select_digest_snd)
qed

theorem category_isolation_witness:
  "fst (select_digest by_favourites 50 ten_posts two_boosts)
     = fst (select_digest by_favourites_and_boosts 50 ten_posts [])
   \<and> select_digest by_favourites 50 ten_posts two_boosts = (drop 5 ten_posts, [two_boosts ! 1])
   \<and> select_digest by_favourites_and_boosts 50 ten_posts two_boosts
       = (drop 5 ten_posts, [two_boosts ! 0])
   \<and> snd (select_digest by_favourites 50 two_boosts ten_posts)
       = snd (select_digest by_favourites_and_boosts 50 [] ten_posts)"
proof -
  have agree: "\<forall>p \<in> set ten_posts. get_score p by_favourites = get_score p by_favourites_and_boosts"
    by (simp add: ten_posts_def liked_def by_favourites_def by_favourites_and_boosts_def
        get_score_def)
  have "fst (select_digest by_favourites 50 ten_posts two_boosts)
     = fst (select_digest by_favourites_and_boosts 50 ten_posts [])"
    using agree
      category_isolation [of ten_posts by_favourites by_favourites_and_boosts 50 two_boosts "[]"]
    by blast
  moreover have "snd (select_digest by_favourites 50 two_boosts ten_posts)
       = snd (select_digest by_favourites_and_boosts 50 [] ten_posts)"
    using agree
      category_isolation [where scorer = by_favourites and scorer' = by_favourites_and_boosts
        and threshold = 50 and bs = ten_posts and ps = two_boosts and ps' = "[]"]
    by blast
  ultimately show ?thesis by (simp add: ten_posts_50)
qed

text \<open>
  Claim C8. When the first page fetched is empty (or there is none), the collector returns
  two empty lists, and so does the whole run. The selector returns the empty list for an
  empty list. Every percentile the selector asks for is that of the score of an element of
  the list in the sample of the scores of the same list, which is then not empty: the
  percentile is defined.
\<close>

theorem degenerate_inputs:
  "fetch_posts_and_boosts \<lparr>timeline = [] # previous, filters_apply = fa\<rparr> u = ([], [])
   \<and> fetch_posts_and_boosts \<lparr>timeline = [], filters_apply = fa\<rparr> u = ([], [])
   \<and> select_digest scorer threshold [] [] = ([], [])
   \<and> fst (select_digest scorer threshold [] bs) = []
   \<and> snd (select_digest scorer threshold ps []) = []
   \<and> run scorer threshold \<lparr>timeline = [] # previous, filters_apply = fa\<rparr> u = ([], [])
   \<and> (\<forall>p \<in> set ps.
         \<exists>v. percentileofscore (map (\<lambda>q. get_score q scorer) ps) (get_score p scorer) = Some v)
   \<and> (\<forall>b \<in> set bs.
         \<exists>v. percentileofscore (map (\<lambda>q. get_score q scorer) bs) (get_score b scorer) = Some v)"
proof -
  have f: "fetch_posts_and_boosts \<lparr>timeline = [] # previous, filters_apply = fa\<rparr> u = ([], [])"
    "fetch_posts_and_boosts \<lparr>timeline = [], filters_apply = fa\<rparr> u = ([], [])"
    by (simp_all add: fetch_posts_and_boosts_def collect_def initial_state_def)
  have s: "select_digest scorer threshold [] [] = ([], [])"
    by (simp add: select_digest_def)
  have d: "\<exists>v. percentileofscore (map (\<lambda>q. get_score q scorer) xs) (get_score p scorer) = Some v"
    if "p \<in> set xs" for p xs
  proof -
    from that have "map (\<lambda>q. get_score q scorer) xs \<noteq> []" by auto
    then show ?thesis by (rule percentileofscore_defined)
  qed
  show ?thesis
    using f s d by (simp add: select_digest_fst select_digest_snd run_def)
qed

theorem degenerate_inputs_witness:
  "liked ''https://d.example/01'' 1 \<in> set ten_posts
   \<and> (\<exists>v. percentileofscore (map (\<lambda>q. get_score q by_favourites) ten_posts)
            (get_score (liked ''https://d.example/01'' 1) by_favourites) = Some v)
   \<and> percentileofscore (map (\<lambda>q. get_score q by_favourites) ten_posts)
            (get_score (liked ''https://d.example/01'' 1) by_favourites) = Some 10
   \<and> two_boosts ! 1 \<in> set two_boosts
   \<and> (\<exists>v. percentileofscore (map (\<lambda>q. get_score q by_favourites) two_boosts)
            (get_score (two_boosts ! 1) by_favourites) = Some v)"
proof -
  note inst = degenerate_inputs [of "[]" no_filters "''viewer''" by_favourites 90 two_boosts ten_posts]
  have m: "liked ''https://d.example/01'' 1 \<in> set ten_posts"
    by (simp add: ten_posts_def)
  have m': "two_boosts ! 1 \<in> set two_boosts"
    by (simp add: two_boosts_def)
  have "\<exists>v. percentileofscore (map (\<lambda>q. get_score q by_favourites) ten_posts)
            (get_score (liked ''https://d.example/01'' 1) by_favourites) = Some v"
    using inst m by blast
  moreover have "\<exists>v. percentileofscore (map (\<lambda>q. get_score q by_favourites) two_boosts)
            (get_score (two_boosts ! 1) by_favourites) = Some v"
    using inst m' by blast
  moreover have "percentileofscore (map (\<lambda>q. get_score q by_favourites) ten_posts)
            (get_score (liked ''https://d.example/01'' 1) by_favourites) = Some 10"
    by (simp add: example_eval)
  ultimately show ?thesis using m m' by blast
qed

text \<open>
  Claim C10. What the selector retains of a list is a subsequence of the list, for the
  posts and for the boosts; and each list the collector returns holds its posts in the
  order in which the entries they come from were iterated over.
\<close>

theorem selection_preserves_order:
  "subseq (fst (select_digest scorer threshold ps bs)) ps
   \<and> subseq (snd (select_digest scorer threshold ps bs)) bs
   \<and> subseq (fst (run scorer threshold client u)) (fst (fetch_posts_and_boosts client u))
   \<and> subseq (snd (run scorer threshold client u)) (snd (fetch_posts_and_boosts client u))
   \<and> subseq (map info (fst (fetch_posts_and_boosts client u)))
        (map underlying (entries_of (filters_apply client) (examined (collect client u))))
   \<and> subseq (map info (snd (fetch_posts_and_boosts client u)))
        (map underlying (entries_of (filters_apply client) (examined (collect client u))))"
proof -
  have inv: "collector_inv u (entries_of (filters_apply client) (examined (collect client u)))
      (collect client u)"
    by (rule collector_inv_collect)
  have a: "subseq (map info (posts (collect client u)))
      (map underlying (entries_of (filters_apply client) (examined (collect client u))))"
    using inv unfolding collector_inv_def by blast
  have b: "subseq (map info (boosts (collect client u)))
      (map underlying (entries_of (filters_apply client) (examined (collect client u))))"
    using inv unfolding collector_inv_def by blast
  have r: "run scorer threshold client u =
      select_digest scorer threshold (fst (fetch_posts_and_boosts client u))
        (snd (fetch_posts_and_boosts client u))"
    by (simp add: run_def split: prod.splits)
  show ?thesis
    using a b unfolding r
    by (simp add: select_digest_fst select_digest_snd fetch_posts_and_boosts_def Let_def)
qed

section \<open>Properties of the entry point\<close>

lemma parse_args_hours:
  "parse_args sc th argv = Some args \<Longrightarrow> args_hours args \<in> {1..<25}"
  by (auto simp: parse_args_def split: if_splits option.splits)

lemma parse_args_rejects:
  "(\<exists>name. s_option argv = Some name \<and> name \<notin> sc) \<or>
   (\<exists>name. t_option argv = Some name \<and> name \<notin> th) \<Longrightarrow> parse_args sc th argv = None"
  by (auto simp: parse_args_def)

lemma parse_args_names:
  "parse_args sc th argv = Some args \<Longrightarrow>
     args_scorer args = (case s_option argv of Some s \<Rightarrow> s | None \<Rightarrow> ''SimpleWeighted'')
   \<and> args_threshold args = (case t_option argv of Some t \<Rightarrow> t | None \<Rightarrow> ''normal'')"
  by (auto simp: parse_args_def split: if_splits)

text \<open>
  Claim C9. When the access token, the base URL or the username is missing from the
  environment (or empty), the program ends in an error exit and \<^verbatim>\<open>run\<close>, the only place
  that talks to the server, is not called. A scorer or threshold name outside its registry
  is rejected by \<^verbatim>\<open>parse_args\<close>, before anything else happens. And \<^verbatim>\<open>run\<close> is called only
  with three non-empty values from the environment and with a scorer and a threshold found
  in the registries.
\<close>

theorem configuration_errors:
  "((falsy (getenv ''MASTODON_TOKEN'') \<or> falsy (getenv ''MASTODON_BASE_URL'')
       \<or> falsy (getenv ''MASTODON_USERNAME'')) \<longrightarrow>
      main scorers thresholds argv getenv = ArgparseError
      \<or> (\<exists>message. main scorers thresholds argv getenv = SysExit message))
   \<and> (((\<exists>name. s_option argv = Some name \<and> name \<notin> dom scorers)
        \<or> (\<exists>name. t_option argv = Some name \<and> name \<notin> dom thresholds)) \<longrightarrow>
      main scorers thresholds argv getenv = ArgparseError)
   \<and> (\<forall>call. main scorers thresholds argv getenv = Run call \<longrightarrow>
        getenv ''MASTODON_TOKEN'' = Some (run_token call) \<and> run_token call \<noteq> []
      \<and> getenv ''MASTODON_BASE_URL'' = Some (run_base_url call) \<and> run_base_url call \<noteq> []
      \<and> getenv ''MASTODON_USERNAME'' = Some (run_username call) \<and> run_username call \<noteq> []
      \<and> scorers (case s_option argv of Some s \<Rightarrow> s | None \<Rightarrow> ''SimpleWeighted'')
           = Some (run_scorer call)
      \<and> thresholds (case t_option argv of Some t \<Rightarrow> t | None \<Rightarrow> ''normal'')
           = Some (run_threshold call))"
proof (intro conjI impI allI)
  assume miss: "falsy (getenv ''MASTODON_TOKEN'') \<or> falsy (getenv ''MASTODON_BASE_URL'')
       \<or> falsy (getenv ''MASTODON_USERNAME'')"
  show "main scorers thresholds argv getenv = ArgparseError
      \<or> (\<exists>message. main scorers thresholds argv getenv = SysExit message)"
  proof (cases "parse_args (dom scorers) (dom thresholds) argv")
    case None
    then show ?thesis by (simp add: main_def)
  next
    case (Some args)
    from parse_args_hours[OF Some] have "args_hours args \<noteq> 0" by auto
    with Some miss show ?thesis by (auto simp: main_def Let_def)
  qed
next
  assume "(\<exists>name. s_option argv = Some name \<and> name \<notin> dom scorers)
        \<or> (\<exists>name. t_option argv = Some name \<and> name \<notin> dom thresholds)"
  then have "parse_args (dom scorers) (dom thresholds) argv = None"
    by (rule parse_args_rejects)
  then show "main scorers thresholds argv getenv = ArgparseError"
    by (simp add: main_def)
next
  fix call
  assume run: "main scorers thresholds argv getenv = Run call"
  then obtain args where args: "parse_args (dom scorers) (dom thresholds) argv = Some args"
    by (cases "parse_args (dom scorers) (dom thresholds) argv") (simp_all add: main_def)
  note names = parse_args_names[OF args]
  from run args have
    "\<not> falsy (getenv ''MASTODON_TOKEN'')" "\<not> falsy (getenv ''MASTODON_BASE_URL'')"
    "\<not> falsy (getenv ''MASTODON_USERNAME'')"
    by (auto simp: main_def Let_def split: if_splits)
  then obtain tk bu un where env:
    "getenv ''MASTODON_TOKEN'' = Some tk" "tk \<noteq> []"
    "getenv ''MASTODON_BASE_URL'' = Some bu" "bu \<noteq> []"
    "getenv ''MASTODON_USERNAME'' = Some un" "un \<noteq> []"
    by (auto simp: falsy_def split: option.splits)
  from run args env names have call:
    "run_token call = tk" "run_base_url call = bu" "run_username call = un"
    "scorers (case s_option argv of Some s \<Rightarrow> s | None \<Rightarrow> ''SimpleWeighted'') = Some (run_scorer call)"
    "thresholds (case t_option argv of Some t \<Rightarrow> t | None \<Rightarrow> ''normal'') = Some (run_threshold call)"
    by (auto simp: main_def Let_def falsy_def str_of_def split: if_splits option.splits)
  show "getenv ''MASTODON_TOKEN'' = Some (run_token call)" using env call by simp
  show "run_token call \<noteq> []" using env call by simp
  show "getenv ''MASTODON_BASE_URL'' = Some (run_base_url call)" using env call by simp
  show "run_base_url call \<noteq> []" using env call by simp
  show "getenv ''MASTODON_USERNAME'' = Some (run_username call)" using env call by simp
  show "run_username call \<noteq> []" using env call by simp
  show "scorers (case s_option argv of Some s \<Rightarrow> s | None \<Rightarrow> ''SimpleWeighted'')
           = Some (run_scorer call)" using call by simp
  show "thresholds (case t_option argv of Some t \<Rightarrow> t | None \<Rightarrow> ''normal'')
           = Some (run_threshold call)" using call by simp
qed

lemma main_full:
  "main one_scorer get_thresholds plain_command_line full_environment =
     Run \<lparr>run_hours = 12, run_scorer = by_favourites, run_threshold = 95,
          run_token = ''secret'', run_base_url = ''https://v.example'',
          run_username = ''viewer''\<rparr>"
  by (simp add: main_def parse_args_def plain_command_line_def one_scorer_def get_thresholds_def
      full_environment_def falsy_def str_of_def)

lemma main_no_token:
  "main one_scorer get_thresholds plain_command_line (full_environment(''MASTODON_TOKEN'' := None))
     = SysExit ''Missing environment variable: MASTODON_TOKEN''"
  by (simp add: main_def parse_args_def plain_command_line_def one_scorer_def get_thresholds_def
      full_environment_def falsy_def str_of_def)

lemma main_bad_threshold:
  "main one_scorer get_thresholds (plain_command_line\<lparr>t_option := Some ''loose''\<rparr>) full_environment
     = ArgparseError"
  by (simp add: main_def parse_args_def plain_command_line_def one_scorer_def get_thresholds_def
      full_environment_def falsy_def str_of_def)

theorem configuration_errors_witness:
  "falsy ((full_environment(''MASTODON_TOKEN'' := None)) ''MASTODON_TOKEN'')
   \<and> (\<exists>message. main one_scorer get_thresholds plain_command_line
        (full_environment(''MASTODON_TOKEN'' := None)) = SysExit message)
   \<and> t_option (plain_command_line\<lparr>t_option := Some ''loose''\<rparr>) = Some ''loose''
   \<and> ''loose'' \<notin> dom get_thresholds
   \<and> main one_scorer get_thresholds (plain_command_line\<lparr>t_option := Some ''loose''\<rparr>)
        full_environment = ArgparseError
   \<and> main one_scorer get_thresholds plain_command_line full_environment =
        Run \<lparr>run_hours = 12, run_scorer = by_favourites, run_threshold = 95,
             run_token = ''secret'', run_base_url = ''https://v.example'',
             run_username = ''viewer''\<rparr>
   \<and> full_environment ''MASTODON_TOKEN'' = Some ''secret''
   \<and> get_thresholds ''normal'' = Some 95"
proof -
  have f: "falsy ((full_environment(''MASTODON_TOKEN'' := None)) ''MASTODON_TOKEN'')"
    by (simp add: falsy_def)
  have n: "main one_scorer get_thresholds plain_command_line
        (full_environment(''MASTODON_TOKEN'' := None)) \<noteq> ArgparseError"
    by (simp add: main_no_token)
  have 1: "\<exists>message. main one_scorer get_thresholds plain_command_line
        (full_environment(''MASTODON_TOKEN'' := None)) = SysExit message"
    using configuration_errors [of "full_environment(''MASTODON_TOKEN'' := None)"
        one_scorer get_thresholds plain_command_line] f n
    by blast
  have t: "t_option (plain_command_line\<lparr>t_option := Some ''loose''\<rparr>) = Some ''loose''"
    "''loose'' \<notin> dom get_thresholds"
    by (simp_all add: get_thresholds_def)
  have 2: "main one_scorer get_thresholds (plain_command_line\<lparr>t_option := Some ''loose''\<rparr>)
        full_environment = ArgparseError"
    using configuration_errors [of full_environment one_scorer get_thresholds
        "plain_command_line\<lparr>t_option := Some ''loose''\<rparr>"] t
    by blast
  have 3: "full_environment ''MASTODON_TOKEN'' = Some ''secret''
      \<and> get_thresholds ''normal'' = Some 95"
    using configuration_errors [of full_environment one_scorer get_thresholds plain_command_line]
      main_full
    by (simp add: plain_command_line_def)
  show ?thesis using f 1 t 2 3 main_full by blast
qed

end
